theory Spec2Isabelle
  imports Main "HOL-Library.Word"
begin

unbundle bit_operations_syntax

section \<open>Strings, values and errors\<close>

text \<open>
  A Python \<open>str\<close> is a sequence of Unicode code points, so a string is a list of code
  points; \<open>ascii\<close> reads an ASCII literal.
\<close>

type_synonym str = "nat list"

definition ascii :: "string \<Rightarrow> str" where
  "ascii s = map of_char s"

text \<open>
  Python exceptions are values of \<open>error\<close>; a function that can raise returns
  \<open>error + 'a\<close> with \<open>Inl\<close> for the exception.
\<close>

datatype error =
    NameError | KeyError | IndexError | TypeError | NotImplementedError
  | ValueError str | AssertionError str | SyntaxError str
  | StructError | OverflowError | ZlibError | UnicodeError | ZeroDivisionError
  | AttributeError | FileNotFoundError

text \<open>
  Values of the expression engine's environment (\<open>Dict[str, Any]\<close>): \<open>None\<close>,
  integers, strings, and callables. A callable is named by a number, and applying it is
  the parameter \<open>app\<close> of the evaluator, so callables are pure functions of their
  argument: they do not reach back into the environment. Dictionary keys are values,
  as in Python.
\<close>

datatype val = VNone | VInt int | VStr str | VFun nat

type_synonym env = "val \<rightharpoonup> val"

section \<open>Expression engine (mini\_cc.py)\<close>

text \<open>
  \<open>ZOp\<close> is the enum of operators (\<open>ZOp.INT\<close> is written \<open>ZINT\<close>, and so on);
  a \<open>ZNode\<close> has an operator, ordered children and a metadata dictionary, whose
  values are JSON values (the constructor serializes them). Its fourth field
  \<open>collapse_id\<close> is a digest of the other three and is left out: nothing below reads it.
\<close>

datatype ZOp = ZINT | ZVAR | ZADD | ZMUL | ZAPPLY | ZLET

datatype ZNode = ZNode (op: ZOp) (args: "ZNode list") (meta: "(str \<times> val) list")

text \<open>
  The operators \<open>+\<close> and \<open>*\<close> of Python on the values above; a type mismatch is a
  TypeError, which the evaluator does not catch.
\<close>

fun py_add :: "val \<Rightarrow> val \<Rightarrow> error + val" where
  "py_add (VInt x) (VInt y) = Inr (VInt (x + y))"
| "py_add (VStr x) (VStr y) = Inr (VStr (x @ y))"
| "py_add _ _ = Inl TypeError"

fun py_mul :: "val \<Rightarrow> val \<Rightarrow> error + val" where
  "py_mul (VInt x) (VInt y) = Inr (VInt (x * y))"
| "py_mul (VStr x) (VInt n) = Inr (VStr (concat (replicate (nat n) x)))"
| "py_mul (VInt n) (VStr x) = Inr (VStr (concat (replicate (nat n) x)))"
| "py_mul _ _ = Inl TypeError"

text \<open>\<open>f(a)\<close>: calling a value that is not callable is a TypeError.\<close>

fun py_call :: "(nat \<Rightarrow> val \<Rightarrow> error + val) \<Rightarrow> val \<Rightarrow> val \<Rightarrow> error + val" where
  "py_call app (VFun k) a = app k a"
| "py_call app _ a = Inl TypeError"

text \<open>
  \<open>Runtime.eval\<close>, with the one mutable environment passed through and returned.
  \<open>n.args[k]\<close> raises IndexError when there is no such child, \<open>n.meta[key]\<close>
  raises KeyError when the key is missing. In the \<open>LET\<close> case \<open>old\<close> is
  \<open>self.env.get(name)\<close>, which is \<open>None\<close> both when \<open>name\<close> is absent and when it
  is bound to \<open>None\<close>; the \<open>finally\<close> block runs whatever the body did, and its
  \<open>del self.env[name]\<close> raises KeyError when \<open>name\<close> is no longer bound. The six
  operators are all that \<open>ZOp\<close> has, so the closing \<open>raise NotImplementedError\<close> is
  never reached.
\<close>

fun eval :: "(nat \<Rightarrow> val \<Rightarrow> error + val) \<Rightarrow> ZNode \<Rightarrow> env \<Rightarrow> (error + val) \<times> env" where
  "eval app (ZNode ZINT zs m) env =
     (case map_of m (ascii ''value'') of None \<Rightarrow> (Inl KeyError, env) | Some v \<Rightarrow> (Inr v, env))"
| "eval app (ZNode ZVAR zs m) env =
     (case map_of m (ascii ''name'') of None \<Rightarrow> (Inl KeyError, env)
      | Some name \<Rightarrow>
          (case env name of None \<Rightarrow> (Inl NameError, env) | Some v \<Rightarrow> (Inr v, env)))"
| "eval app (ZNode ZADD zs m) env =
     (case zs of [] \<Rightarrow> (Inl IndexError, env)
      | l # rest \<Rightarrow>
         (case eval app l env of (Inl e, env1) \<Rightarrow> (Inl e, env1)
          | (Inr x, env1) \<Rightarrow>
             (case rest of [] \<Rightarrow> (Inl IndexError, env1)
              | r # _ \<Rightarrow>
                 (case eval app r env1 of (Inl e, env2) \<Rightarrow> (Inl e, env2)
                  | (Inr y, env2) \<Rightarrow> (py_add x y, env2)))))"
| "eval app (ZNode ZMUL zs m) env =
     (case zs of [] \<Rightarrow> (Inl IndexError, env)
      | l # rest \<Rightarrow>
         (case eval app l env of (Inl e, env1) \<Rightarrow> (Inl e, env1)
          | (Inr x, env1) \<Rightarrow>
             (case rest of [] \<Rightarrow> (Inl IndexError, env1)
              | r # _ \<Rightarrow>
                 (case eval app r env1 of (Inl e, env2) \<Rightarrow> (Inl e, env2)
                  | (Inr y, env2) \<Rightarrow> (py_mul x y, env2)))))"
| "eval app (ZNode ZAPPLY zs m) env =
     (case zs of [] \<Rightarrow> (Inl IndexError, env)
      | l # rest \<Rightarrow>
         (case eval app l env of (Inl e, env1) \<Rightarrow> (Inl e, env1)
          | (Inr f, env1) \<Rightarrow>
             (case rest of [] \<Rightarrow> (Inl IndexError, env1)
              | r # _ \<Rightarrow>
                 (case eval app r env1 of (Inl e, env2) \<Rightarrow> (Inl e, env2)
                  | (Inr a, env2) \<Rightarrow> (py_call app f a, env2)))))"
| "eval app (ZNode ZLET zs m) env =
     (case map_of m (ascii ''name'') of None \<Rightarrow> (Inl KeyError, env)
      | Some name \<Rightarrow>
         (case zs of [] \<Rightarrow> (Inl IndexError, env)
          | v # rest \<Rightarrow>
             (case eval app v env of (Inl e, env1) \<Rightarrow> (Inl e, env1)
              | (Inr val, env1) \<Rightarrow>
                 (let old = env1 name;
                      env2 = env1(name \<mapsto> val);
                      (res, env3) = (case rest of [] \<Rightarrow> (Inl IndexError, env2)
                                     | body # _ \<Rightarrow> eval app body env2)
                  in (if old = None \<or> old = Some VNone
                      then (if env3 name = None then (Inl KeyError, env3)
                            else (res, env3(name := None)))
                      else (res, env3(name := old)))))))"


text \<open>The two callables of mini\_cc.py: \<open>add1\<close> is callable 0, \<open>double\<close> is callable 1.\<close>

fun std_call :: "nat \<Rightarrow> val \<Rightarrow> error + val" where
  "std_call 0 x = py_add x (VInt 1)"
| "std_call (Suc 0) x = py_mul x (VInt 2)"
| "std_call _ x = Inl TypeError"

definition int_node :: "int \<Rightarrow> ZNode" where
  "int_node k = ZNode ZINT [] [(ascii ''value'', VInt k)]"

definition var_node :: "str \<Rightarrow> ZNode" where
  "var_node x = ZNode ZVAR [] [(ascii ''name'', VStr x)]"

definition let_node :: "str \<Rightarrow> ZNode \<Rightarrow> ZNode \<Rightarrow> ZNode" where
  "let_node x v b = ZNode ZLET [v, b] [(ascii ''name'', VStr x)]"

text \<open>\<open>let x -> 5 in (let x -> 7 in x) + x\<close>, as the parser of mini\_cc.py builds it.\<close>

definition shadow_example :: ZNode where
  "shadow_example =
     let_node (ascii ''x'') (int_node 5)
       (ZNode ZADD [let_node (ascii ''x'') (int_node 7) (var_node (ascii ''x'')),
                    var_node (ascii ''x'')] [])"

text \<open>The environment \<open>{"x": 1}\<close>.\<close>

definition env_x1 :: env where
  "env_x1 = [VStr (ascii ''x'') \<mapsto> VInt 1]"

subsection \<open>The environment after an evaluation\<close>

text \<open>
  What an evaluation can do to the environment: a name bound to \<open>None\<close> may have lost
  its binding, and nothing else changes.
\<close>

definition erodes :: "env \<Rightarrow> env \<Rightarrow> bool" where
  "erodes e e' = (\<forall>k. e' k = e k \<or> (e k = Some VNone \<and> e' k = None))"

lemma erodes_refl: "erodes e e"
  by (simp add: erodes_def)

lemma erodes_trans: "erodes a b \<Longrightarrow> erodes b c \<Longrightarrow> erodes a c"
  unfolding erodes_def by metis

lemma erodes_binop:
  assumes l: "\<And>x rest. zs = x # rest \<Longrightarrow> erodes env (snd (eval app x env))"
    and r: "\<And>x rest v env1 y rest'. zs = x # rest \<Longrightarrow> eval app x env = (Inr v, env1)
              \<Longrightarrow> rest = y # rest' \<Longrightarrow> erodes env1 (snd (eval app y env1))"
  shows "erodes env (snd (case zs of [] \<Rightarrow> (Inl IndexError, env)
      | l # rest \<Rightarrow>
         (case eval app l env of (Inl e, env1) \<Rightarrow> (Inl e, env1)
          | (Inr x, env1) \<Rightarrow>
             (case rest of [] \<Rightarrow> (Inl IndexError, env1)
              | r # _ \<Rightarrow>
                 (case eval app r env1 of (Inl e, env2) \<Rightarrow> (Inl e, env2)
                  | (Inr y, env2) \<Rightarrow> (f x y, env2))))))"
proof (cases zs)
  case Nil
  then show ?thesis by (simp add: erodes_refl)
next
  case (Cons x rest)
  obtain res env1 where e1: "eval app x env = (res, env1)" by (cases "eval app x env")
  have a: "erodes env env1" using l[OF Cons] e1 by simp
  show ?thesis
  proof (cases res)
    case (Inl e)
    then show ?thesis using Cons e1 a by simp
  next
    case (Inr v)
    show ?thesis
    proof (cases rest)
      case Nil
      then show ?thesis using Cons e1 a Inr by simp
    next
      case (Cons y rest')
      obtain res2 env2 where e2: "eval app y env1 = (res2, env2)" by (cases "eval app y env1")
      have b: "erodes env1 env2" using r[OF \<open>zs = x # rest\<close> _ Cons, of v env1] e1 Inr e2 by simp
      have "erodes env env2" using a b by (rule erodes_trans)
      then show ?thesis using \<open>zs = x # rest\<close> Cons e1 e2 Inr by (cases res2) simp_all
    qed
  qed
qed

lemma eval_erodes: "erodes env (snd (eval app n env))"
proof (induction app n env rule: eval.induct)
  case (1 app zs m env)
  then show ?case by (simp add: erodes_refl split: option.splits)
next
  case (2 app zs m env)
  then show ?case by (simp add: erodes_refl split: option.splits)
next
  case (3 app zs m env)
  show ?case unfolding eval.simps
    by (rule erodes_binop) (use 3 in auto)
next
  case (4 app zs m env)
  show ?case unfolding eval.simps
    by (rule erodes_binop) (use 4 in auto)
next
  case (5 app zs m env)
  show ?case unfolding eval.simps
    by (rule erodes_binop) (use 5 in auto)
next
  case (6 app zs m env)
  show ?case
  proof (cases "map_of m (ascii ''name'')")
    case None
    then show ?thesis by (simp add: erodes_refl)
  next
    case (Some name)
    show ?thesis
    proof (cases zs)
      case Nil
      then show ?thesis using Some by (simp add: erodes_refl)
    next
      case (Cons v rest)
      obtain res env1 where e1: "eval app v env = (res, env1)" by (cases "eval app v env")
      have a: "erodes env env1" using 6(1)[OF Some Cons] e1 by simp
      show ?thesis
      proof (cases res)
        case (Inl e)
        then show ?thesis using Some Cons e1 a by simp
      next
        case (Inr val)
        define env2 where "env2 = env1(name \<mapsto> val)"
        obtain res3 env3 where e3:
          "(case rest of [] \<Rightarrow> (Inl IndexError, env2) | body # _ \<Rightarrow> eval app body env2) = (res3, env3)"
          by (cases "(case rest of [] \<Rightarrow> (Inl IndexError, env2) | body # _ \<Rightarrow> eval app body env2)")
        have b: "erodes env2 env3"
        proof (cases rest)
          case Nil
          then show ?thesis using e3 by (simp add: erodes_refl)
        next
          case (Cons body rest')
          have "erodes env2 (snd (eval app body env2))"
            using 6(2)[OF Some \<open>zs = v # rest\<close> e1[symmetric] Inr refl refl Cons]
            by (simp add: env2_def fun_upd_def)
          then show ?thesis using e3 Cons by simp
        qed
        have out: "snd (eval app (ZNode ZLET zs m) env) =
            (if env1 name = None \<or> env1 name = Some VNone
             then (if env3 name = None then env3 else env3(name := None))
             else env3(name := env1 name))"
          using Some Cons e1 Inr e3[unfolded env2_def] by (simp add: Let_def)
        have "erodes env1 (if env1 name = None \<or> env1 name = Some VNone
             then (if env3 name = None then env3 else env3(name := None))
             else env3(name := env1 name))"
          unfolding erodes_def
        proof (intro allI)
          fix k
          let ?R = "(if env1 name = None \<or> env1 name = Some VNone
             then (if env3 name = None then env3 else env3(name := None))
             else env3(name := env1 name))"
          show "?R k = env1 k \<or> (env1 k = Some VNone \<and> ?R k = None)"
          proof (cases "k = name")
            case True
            then show ?thesis by (cases "env1 name") simp_all
          next
            case False
            have "?R k = env3 k" using False by simp
            moreover have "env3 k = env1 k \<or> (env1 k = Some VNone \<and> env3 k = None)"
              using b False unfolding erodes_def env2_def
              by (metis fun_upd_other)
            ultimately show ?thesis by simp
          qed
        qed
        then have "erodes env1 (snd (eval app (ZNode ZLET zs m) env))"
          by (simp only: out)
        with a show ?thesis by (rule erodes_trans)
      qed
    qed
  qed
qed


lemma eval_binding_unchanged:
  assumes "env k \<noteq> Some VNone"
  shows "snd (eval app n env) k = env k"
proof -
  have "erodes env (snd (eval app n env))" by (rule eval_erodes)
  then have "snd (eval app n env) k = env k \<or> env k = Some VNone"
    unfolding erodes_def by blast
  with assms show ?thesis by blast
qed

text \<open>
  C9. In an environment where no name is bound to \<open>None\<close>, \<open>Runtime.eval\<close> leaves the
  environment as it found it: the same names bound to the same values, whether the
  evaluation returns a value or raises.
\<close>

theorem eval_preserves_env:
  assumes "\<forall>k. env k \<noteq> Some VNone"
  shows "snd (eval app n env) = env"
proof -
  have e: "erodes env (snd (eval app n env))" by (rule eval_erodes)
  show ?thesis
  proof (rule ext)
    fix k
    from e have "snd (eval app n env) k = env k \<or> env k = Some VNone"
      unfolding erodes_def by blast
    with assms show "snd (eval app n env) k = env k" by blast
  qed
qed

theorem eval_preserves_env_witness:
  "(\<forall>k. env_x1 k \<noteq> Some VNone)
   \<and> snd (eval std_call shadow_example env_x1) = env_x1
   \<and> fst (eval std_call shadow_example env_x1) = Inr (VInt 12)"
proof -
  have h: "\<forall>k. env_x1 k \<noteq> Some VNone" by (simp add: env_x1_def)
  have v: "fst (eval std_call shadow_example env_x1) = Inr (VInt 12)"
    by (simp add: env_x1_def shadow_example_def let_node_def int_node_def var_node_def ascii_def)
  from h v eval_preserves_env [OF h, of std_call shadow_example] show ?thesis by blast
qed

text \<open>
  C4. A \<open>let\<close> should put back the binding its name had before. By
  \<open>eval_binding_unchanged\<close> it does so for a name that was absent and for a name bound
  to anything but \<open>None\<close>. The code takes \<open>self.env.get(name)\<close> for the old binding and
  deletes the name when that is \<open>None\<close>, so a name that was bound to \<open>None\<close> is deleted
  instead of restored: in the environment \<open>{"x": None}\<close>, \<open>let x -> 1 in 0\<close> returns 0
  and leaves \<open>x\<close> unbound.
\<close>

theorem let_deletes_none_binding:
  "[VStr (ascii ''x'') \<mapsto> VNone] (VStr (ascii ''x'')) = Some VNone
   \<and> fst (eval std_call (let_node (ascii ''x'') (int_node 1) (int_node 0))
          [VStr (ascii ''x'') \<mapsto> VNone]) = Inr (VInt 0)
   \<and> snd (eval std_call (let_node (ascii ''x'') (int_node 1) (int_node 0))
          [VStr (ascii ''x'') \<mapsto> VNone]) (VStr (ascii ''x'')) = None"
  by (simp add: let_node_def int_node_def ascii_def)

section \<open>Bitmask builder (fardbits.py)\<close>

text \<open>
  A bitset is a Python integer; \<open>bitset_new\<close> ignores its argument.
\<close>

definition bitset_new :: "int \<Rightarrow> int" where
  "bitset_new n = 0"

definition bitset_set :: "int \<Rightarrow> nat \<Rightarrow> int" where
  "bitset_set bs i = bs OR push_bit i 1"

definition bitset_test :: "int \<Rightarrow> nat \<Rightarrow> bool" where
  "bitset_test bs i = ((drop_bit i bs) AND 1 = 1)"

text \<open>
  \<open>build_mask\<close> keeps \<open>bs\<close>, \<open>idx\<close> and the list \<open>coords\<close> in the enclosing scope
  of its local function \<open>rec\<close>; here they are the state that \<open>rec_mask\<close> takes and
  returns. \<open>loop_mask dim p cond d v\<close> is the rest of the loop \<open>for v in range(p)\<close> of
  \<open>rec(d)\<close>, from \<open>v\<close> on. The list \<open>coords\<close> is \<open>[0]*dim\<close>, of length \<open>nat dim\<close>,
  and the assignment \<open>coords[d] = v\<close> raises IndexError beyond it. The predicate may
  raise.
\<close>

type_synonym mask_state = "int \<times> nat \<times> int list"

function rec_mask :: "int \<Rightarrow> int \<Rightarrow> (int list \<Rightarrow> error + bool) \<Rightarrow> nat \<Rightarrow> mask_state \<Rightarrow> error + mask_state"
  and loop_mask :: "int \<Rightarrow> int \<Rightarrow> (int list \<Rightarrow> error + bool) \<Rightarrow> nat \<Rightarrow> nat \<Rightarrow> mask_state \<Rightarrow> error + mask_state"
  where
  "rec_mask dim p cond d st =
     (if int d = dim
      then (case st of (bs, idx, coords) \<Rightarrow>
              (case cond coords of Inl e \<Rightarrow> Inl e
               | Inr t \<Rightarrow> Inr (if t then bitset_set bs idx else bs, idx + 1, coords)))
      else loop_mask dim p cond d 0 st)"
| "loop_mask dim p cond d v st =
     (if int v < p
      then (if d < nat dim
            then (case st of (bs, idx, coords) \<Rightarrow>
                    (case rec_mask dim p cond (d + 1) (bs, idx, coords[d := int v]) of
                       Inl e \<Rightarrow> Inl e
                     | Inr st' \<Rightarrow> loop_mask dim p cond d (v + 1) st'))
            else Inl IndexError)
      else Inr st)"
  by pat_completeness auto
termination
  by (relation "inv_image (less_than <*lex*> less_than <*lex*> less_than)
        (\<lambda>x. case x of
            Inl (dim, p, cond, d, st) \<Rightarrow> (nat dim + 1 - d, 1::nat, 0::nat)
          | Inr (dim, p, cond, d, v, st) \<Rightarrow> (nat dim + 1 - d, 0, nat p - v))")
     auto

declare rec_mask.simps [simp del] loop_mask.simps [simp del]

text \<open>
  \<open>p**dim\<close> is evaluated for \<open>bitset_new\<close>, which ignores it; it raises
  ZeroDivisionError for \<open>0 ** dim\<close> with a negative \<open>dim\<close>.
\<close>

definition build_mask :: "int \<Rightarrow> int \<Rightarrow> (int list \<Rightarrow> error + bool) \<Rightarrow> error + int" where
  "build_mask dim p cond =
     (if dim < 0 \<and> p = 0 then Inl ZeroDivisionError
      else (case rec_mask dim p cond 0 (bitset_new (p ^ nat dim), 0, replicate (nat dim) 0) of
              Inl e \<Rightarrow> Inl e
            | Inr (bs, idx, coords) \<Rightarrow> Inr bs))"


subsection \<open>The enumeration order\<close>

text \<open>
  All tuples of length \<open>n\<close> with digits in \<open>[0, p)\<close>, in lexicographic order: the first
  coordinate is the most significant.
\<close>

fun lex_tuples :: "nat \<Rightarrow> nat \<Rightarrow> int list list" where
  "lex_tuples 0 p = [[]]"
| "lex_tuples (Suc n) p = concat (map (\<lambda>v. map ((#) (int v)) (lex_tuples n p)) [0..<p])"

text \<open>
  One pass over a list of tuples: test each, set the bit of its index, count on.
\<close>

definition scan_step :: "(int list \<Rightarrow> bool) \<Rightarrow> int list \<Rightarrow> int \<times> nat \<Rightarrow> int \<times> nat" where
  "scan_step P t s = (if P t then bitset_set (fst s) (snd s) else fst s, snd s + 1)"

definition scan :: "(int list \<Rightarrow> bool) \<Rightarrow> int list list \<Rightarrow> int \<times> nat \<Rightarrow> int \<times> nat" where
  "scan P ts s = fold (scan_step P) ts s"

lemma scan_Nil: "scan P [] s = s"
  by (simp add: scan_def)

lemma scan_Cons: "scan P (t # ts) s = scan P ts (scan_step P t s)"
  by (simp add: scan_def)

lemma scan_append: "scan P (xs @ ys) s = scan P ys (scan P xs s)"
  by (simp add: scan_def)

lemma take_Suc_update:
  "d < length cs \<Longrightarrow> take (Suc d) (cs[d := x]) = take d cs @ [x]"
  by (simp add: take_Suc_conv_app_nth)

lemma rec_mask_leaf:
  "int d = dim \<Longrightarrow> rec_mask dim p cond d (bs, idx, coords) =
     (case cond coords of Inl e \<Rightarrow> Inl e
      | Inr t \<Rightarrow> Inr (if t then bitset_set bs idx else bs, idx + 1, coords))"
  by (subst rec_mask.simps) simp

lemma rec_mask_node:
  "int d \<noteq> dim \<Longrightarrow> rec_mask dim p cond d st = loop_mask dim p cond d 0 st"
  by (subst rec_mask.simps) simp

lemma loop_mask_done:
  "\<not> int v < p \<Longrightarrow> loop_mask dim p cond d v st = Inr st"
  by (subst loop_mask.simps) simp

lemma loop_mask_step:
  "int v < p \<Longrightarrow> d < nat dim \<Longrightarrow> loop_mask dim p cond d v (bs, idx, coords) =
     (case rec_mask dim p cond (d + 1) (bs, idx, coords[d := int v]) of
        Inl e \<Rightarrow> Inl e
      | Inr st' \<Rightarrow> loop_mask dim p cond d (v + 1) st')"
  by (subst loop_mask.simps) simp

lemma loop_mask_index_error:
  "int v < p \<Longrightarrow> \<not> d < nat dim \<Longrightarrow> loop_mask dim p cond d v st = Inl IndexError"
  by (subst loop_mask.simps) simp

lemma rec_loop_scan:
  "dim = int n \<Longrightarrow> p = int pn \<Longrightarrow> (\<forall>t. length t = n \<longrightarrow> cond t = Inr (P t)) \<Longrightarrow> d \<le> n
     \<Longrightarrow> length (snd (snd st)) = n
     \<Longrightarrow> \<exists>cs. rec_mask dim p cond d st =
            Inr (fst (scan P (map ((@) (take d (snd (snd st)))) (lex_tuples (n - d) pn)) (fst st, fst (snd st))),
                 snd (scan P (map ((@) (take d (snd (snd st)))) (lex_tuples (n - d) pn)) (fst st, fst (snd st))),
                 cs)
          \<and> length cs = n \<and> take d cs = take d (snd (snd st))"
  "dim = int n \<Longrightarrow> p = int pn \<Longrightarrow> (\<forall>t. length t = n \<longrightarrow> cond t = Inr (P t)) \<Longrightarrow> d < n
     \<Longrightarrow> length (snd (snd st)) = n
     \<Longrightarrow> \<exists>cs. loop_mask dim p cond d v st =
            Inr (fst (scan P (map ((@) (take d (snd (snd st))))
                        (concat (map (\<lambda>w. map ((#) (int w)) (lex_tuples (n - d - 1) pn)) [v..<pn])))
                        (fst st, fst (snd st))),
                 snd (scan P (map ((@) (take d (snd (snd st))))
                        (concat (map (\<lambda>w. map ((#) (int w)) (lex_tuples (n - d - 1) pn)) [v..<pn])))
                        (fst st, fst (snd st))),
                 cs)
          \<and> length cs = n \<and> take d cs = take d (snd (snd st))"
proof (induction dim p cond d st and dim p cond d v st rule: rec_mask_loop_mask.induct)
  case (1 dim p cond d st)
  obtain bs idx coords where st: "st = (bs, idx, coords)" by (cases st)
  show ?case
  proof (cases "d = n")
    case True
    then show ?thesis using 1(2-) st
      by (simp add: rec_mask_leaf scan_Cons scan_Nil scan_step_def)
  next
    case False
    then have dn: "d < n" using 1(5) by simp
    have ne: "int d \<noteq> dim" using False 1(2) by simp
    have tup: "lex_tuples (n - d) pn =
        concat (map (\<lambda>w. map ((#) (int w)) (lex_tuples (n - d - 1) pn)) [0..<pn])"
      using dn by (cases "n - d") simp_all
    from 1(1)[OF ne 1(2) 1(3) 1(4) dn 1(6)] show ?thesis
      by (simp add: rec_mask_node[OF ne] tup)
  qed
next
  case (2 dim p cond d v st)
  obtain bs idx coords where st: "st = (bs, idx, coords)" by (cases st)
  have len: "length coords = n" using 2(7) st by simp
  show ?case
  proof (cases "v < pn")
    case False
    then show ?thesis using 2(3-) st by (simp add: loop_mask_done scan_Nil)
  next
    case True
    have c1: "int v < p" using True 2(4) by simp
    have c2: "d < nat dim" using 2(3) 2(6) by simp
    let ?ts = "lex_tuples (n - d - 1) pn"
    let ?s1 = "scan P (map ((@) (take (d + 1) (coords[d := int v]))) (lex_tuples (n - (d + 1)) pn)) (bs, idx)"
    have "Suc d \<le> n" using 2(6) by simp
    from 2(1)[OF c1 c2 st[symmetric] refl 2(3) 2(4) 2(5)] this len
    obtain cs1 where r1: "rec_mask dim p cond (d + 1) (bs, idx, coords[d := int v]) = Inr (fst ?s1, snd ?s1, cs1)"
      and l1: "length cs1 = n" and t1: "take (d + 1) cs1 = take (d + 1) (coords[d := int v])"
      by auto
    have t1': "take d cs1 = take d coords"
    proof -
      have "take d cs1 = take d (take (d + 1) cs1)" by simp
      also have "\<dots> = take d (take (d + 1) (coords[d := int v]))" by (simp only: t1)
      also have "\<dots> = take d coords" by simp
      finally show ?thesis .
    qed
    let ?rest = "concat (map (\<lambda>w. map ((#) (int w)) ?ts) [Suc v..<pn])"
    let ?s2 = "scan P (map ((@) (take d cs1)) ?rest) (fst ?s1, snd ?s1)"
    from 2(2)[OF c1 c2 st[symmetric] refl r1 2(3) 2(4) 2(5) 2(6)] l1
    obtain cs2 where r2: "loop_mask dim p cond d (v + 1) (fst ?s1, snd ?s1, cs1) = Inr (fst ?s2, snd ?s2, cs2)"
      and l2: "length cs2 = n" and t2: "take d cs2 = take d cs1"
      by auto
    have upt_v: "[v..<pn] = v # [Suc v..<pn]" using True by (simp add: upt_conv_Cons)
    have pre: "take (d + 1) (coords[d := int v]) = take d coords @ [int v]"
      using take_Suc_update[of d coords "int v"] 2(6) len by simp
    have m: "map ((@) (take d coords)) (map ((#) (int v)) ?ts)
        = map ((@) (take (d + 1) (coords[d := int v]))) ?ts"
      using pre by simp
    have e1: "concat (map (\<lambda>w. map ((#) (int w)) ?ts) [v..<pn]) = map ((#) (int v)) ?ts @ ?rest"
      by (simp add: upt_v del: upt_Suc)
    have "scan P (map ((@) (take d coords))
               (concat (map (\<lambda>w. map ((#) (int w)) ?ts) [v..<pn]))) (bs, idx)
        = scan P (map ((@) (take d coords)) ?rest)
            (scan P (map ((@) (take d coords)) (map ((#) (int v)) ?ts)) (bs, idx))"
      by (simp only: e1 map_append scan_append)
    also have "\<dots> = scan P (map ((@) (take d cs1)) ?rest) ?s1"
      by (simp only: m t1') simp
    finally have s: "scan P (map ((@) (take d coords))
               (concat (map (\<lambda>w. map ((#) (int w)) ?ts) [v..<pn]))) (bs, idx) = ?s2"
      by simp
    have "loop_mask dim p cond d v st = Inr (fst ?s2, snd ?s2, cs2)"
      using st r1 r2 by (simp add: loop_mask_step[OF c1 c2])
    then show ?thesis using l2 t2 t1' st s by simp
  qed
qed


lemma snd_scan: "snd (scan P ts s) = snd s + length ts"
  by (induction ts arbitrary: s) (simp_all add: scan_Nil scan_Cons scan_step_def)

lemma bit_bitset_set: "bit (bitset_set bs k) i \<longleftrightarrow> bit bs i \<or> i = k"
  by (auto simp add: bitset_set_def bit_or_iff bit_exp_iff)

lemma bit_scan:
  "bit (fst (scan P ts (bs, idx))) i \<longleftrightarrow>
     bit bs i \<or> (idx \<le> i \<and> i < idx + length ts \<and> P (ts ! (i - idx)))"
proof (induction ts arbitrary: bs idx)
  case Nil
  then show ?case by (auto simp add: scan_Nil)
next
  case (Cons t ts)
  let ?bs1 = "if P t then bitset_set bs idx else bs"
  have step: "scan P (t # ts) (bs, idx) = scan P ts (?bs1, Suc idx)"
    by (simp add: scan_Cons scan_step_def)
  have b1: "bit ?bs1 i \<longleftrightarrow> bit bs i \<or> (P t \<and> i = idx)"
    by (simp add: bit_bitset_set)
  show ?case
  proof (cases "i = idx")
    case True
    then show ?thesis unfolding step Cons.IH b1 by simp
  next
    case False
    have "Suc idx \<le> i \<Longrightarrow> (t # ts) ! (i - idx) = ts ! (i - Suc idx)"
      by (simp add: nth_Cons split: nat.splits) (metis Suc_diff_Suc Suc_le_lessD nat.inject)
    then show ?thesis unfolding step Cons.IH b1 using False by auto
  qed
qed

lemma length_lex_tuples: "length (lex_tuples n p) = p ^ n"
  by (induction n) (simp_all add: length_concat comp_def sum_list_triv)

lemma set_lex_tuples:
  "set (lex_tuples n p) = {t. length t = n \<and> set t \<subseteq> {0..<int p}}"
proof (induction n)
  case 0
  then show ?case by auto
next
  case (Suc n)
  show ?case
  proof (rule set_eqI)
    fix t
    show "t \<in> set (lex_tuples (Suc n) p) \<longleftrightarrow> t \<in> {t. length t = Suc n \<and> set t \<subseteq> {0..<int p}}"
    proof (cases t)
      case Nil
      then show ?thesis by auto
    next
      case (Cons x xs)
      have "x # xs \<in> set (lex_tuples (Suc n) p) \<longleftrightarrow> (\<exists>v<p. x = int v) \<and> xs \<in> set (lex_tuples n p)"
        by auto
      also have "(\<exists>v<p. x = int v) \<longleftrightarrow> 0 \<le> x \<and> x < int p"
        by (metis nat_less_iff of_nat_0_le_iff of_nat_less_iff int_nat_eq)
      finally show ?thesis using Cons Suc by auto
    qed
  qed
qed

text \<open>The strict lexicographic order on tuples.\<close>

definition lex_less :: "int list \<Rightarrow> int list \<Rightarrow> bool" where
  "lex_less s t = ((s, t) \<in> lexord {(x, y). x < y})"

lemma sorted_block:
  assumes "sorted_wrt lex_less T"
  shows "sorted_wrt lex_less (concat (map (\<lambda>v. map ((#) (int v)) T) [0..<q]))"
proof (induction q)
  case 0
  then show ?case by simp
next
  case (Suc q)
  have last: "sorted_wrt lex_less (map ((#) (int q)) T)"
    using assms unfolding lex_less_def by (simp add: sorted_wrt_map)
  have cross: "\<forall>s \<in> set (concat (map (\<lambda>v. map ((#) (int v)) T) [0..<q])).
               \<forall>t \<in> set (map ((#) (int q)) T). lex_less s t"
    by (auto simp: lex_less_def)
  show ?case using Suc last cross by (simp add: sorted_wrt_append)
qed

lemma sorted_lex_tuples: "sorted_wrt lex_less (lex_tuples n p)"
  by (induction n) (simp_all add: sorted_block)

lemma lex_less_irrefl: "\<not> lex_less t t"
  by (simp add: lex_less_def lexord_irreflexive)

lemma distinct_lex_tuples: "distinct (lex_tuples n p)"
proof -
  have "sorted_wrt lex_less xs \<Longrightarrow> distinct xs" for xs
    by (induction xs) (auto simp: lex_less_irrefl)
  then show ?thesis using sorted_lex_tuples by blast
qed

lemma build_mask_scan:
  assumes "\<forall>t. length t = n \<longrightarrow> cond t = Inr (P t)"
  shows "\<exists>cs. rec_mask (int n) (int p) cond 0 (bitset_new (int p ^ n), 0, replicate n 0)
       = Inr (fst (scan P (lex_tuples n p) (0, 0)), p ^ n, cs)"
proof -
  have a: "\<exists>cs. rec_mask (int n) (int p) cond 0 (bitset_new (int p ^ n), 0, replicate n 0) =
      Inr (fst (scan P (map ((@) []) (lex_tuples n p)) (0, 0)), p ^ n, cs)"
    using rec_loop_scan(1)[of "int n" n "int p" p cond P 0 "(bitset_new (int p ^ n), 0, replicate n 0)"] assms
    by (auto simp add: bitset_new_def snd_scan length_lex_tuples)
  have "(@) ([] :: int list) = (\<lambda>x. x)" by (rule ext) simp
  with a show ?thesis by simp
qed

section \<open>Bytecode IR (ir.py)\<close>

definition OP_INIT :: int where "OP_INIT = 1"
definition OP_SEED :: int where "OP_SEED = 2"
definition OP_VMASK :: int where "OP_VMASK = 3"
definition OP_GRAD :: int where "OP_GRAD = 4"
definition OP_PROJ :: int where "OP_PROJ = 5"
definition OP_METRICS :: int where "OP_METRICS = 6"
definition OP_HALT :: int where "OP_HALT = 7"

text \<open>
  The numeric operands of an instruction are annotated \<open>float\<close>, and the compiler also
  stores an \<open>int\<close> there (\<open>b=dim\<close>). A Python float is an IEEE 754 double, given by its
  64 bits.
\<close>

datatype num = IntV int | FloatV "64 word"

definition float_0_0 :: "64 word" where "float_0_0 = 0"
definition float_1_0 :: "64 word" where "float_1_0 = 0x3FF0000000000000"
definition float_0_1 :: "64 word" where "float_0_1 = 0x3FB999999999999A"
definition float_0_01 :: "64 word" where "float_0_01 = 0x3F847AE147AE147B"
definition float_0_99 :: "64 word" where "float_0_99 = 0x3FEFAE147AE147AE"

record Instr =
  ins_op :: int
  ins_a :: num
  ins_b :: num
  ins_c :: num
  ins_i :: int

text \<open>
  The fields \<open>op\<close>, \<open>a\<close>, \<open>b\<close>, \<open>c\<close>, \<open>i\<close> of the data class carry the prefix \<open>ins_\<close>
  here, and likewise the fields of the data classes of the parser below.
  \<open>instr opc\<close> is \<open>Instr(op)\<close> with the defaults \<open>a=0.0, b=0.0, c=0.0, i=0\<close>.
\<close>

definition instr :: "int \<Rightarrow> Instr" where
  "instr opc = \<lparr>ins_op = opc, ins_a = FloatV float_0_0, ins_b = FloatV float_0_0,
                 ins_c = FloatV float_0_0, ins_i = 0\<rparr>"

section \<open>Program (parser.py, data classes)\<close>

record PsiDecl =
  psi_p :: int
  psi_dim :: int

record ValDecl =
  val_kind :: str
  val_args :: "int list"

record Step =
  step_op :: str
  step_args :: "num list"

record Program =
  prog_psi :: PsiDecl
  prog_val :: ValDecl
  prog_steps :: "Step list"

section \<open>Compiler (compiler.py)\<close>

text \<open>
  The validator predicate \<open>lambda x: x[axis]==cval\<close>; a negative index counts from the
  end of the tuple, an index out of range raises IndexError.
\<close>

definition x_eq :: "int \<Rightarrow> int \<Rightarrow> int list \<Rightarrow> error + bool" where
  "x_eq axis cval x =
     (let n = int (length x); j = (if axis < 0 then n + axis else axis)
      in if 0 \<le> j \<and> j < n then Inr (x ! nat j = cval) else Inl IndexError)"

text \<open>The body of the loop over the steps: what one step appends to \<open>bc\<close>.\<close>

definition compile_step :: "Instr list \<Rightarrow> Step \<Rightarrow> Instr list" where
  "compile_step bc st =
     (if step_op st = ascii ''grad''
      then bc @ [(instr OP_GRAD)\<lparr>ins_a := FloatV float_1_0, ins_b := FloatV float_1_0,
                                  ins_c := FloatV float_0_1\<rparr>]
      else if step_op st = ascii ''project'' then bc @ [instr OP_PROJ]
      else if step_op st = ascii ''goal'' then bc @ [instr OP_METRICS] @ [instr OP_HALT]
      else bc)"

text \<open>
  \<open>axis, cval = prog.val.args\<close> raises ValueError unless the tuple has two elements.
\<close>

definition compile_to_ir :: "Program \<Rightarrow> error + Instr list" where
  "compile_to_ir prog =
     (let p = psi_p (prog_psi prog); dim = psi_dim (prog_psi prog);
          bc = [(instr OP_INIT)\<lparr>ins_i := p\<rparr>, (instr OP_INIT)\<lparr>ins_b := IntV dim\<rparr>, instr OP_SEED]
      in case val_args (prog_val prog) of
           [axis, cval] \<Rightarrow>
             (case build_mask dim p (x_eq axis cval) of
                Inl e \<Rightarrow> Inl e
              | Inr vmask \<Rightarrow>
                  Inr (foldl compile_step (bc @ [(instr OP_VMASK)\<lparr>ins_i := vmask\<rparr>]) (prog_steps prog)))
         | _ \<Rightarrow> Inl (ValueError (ascii ''values to unpack (expected 2)'')))"

text \<open>The program with layout \<open>f3^3\<close> and validator \<open>x1 = 0\<close>, with any steps.\<close>

definition f3_x1_program :: "Step list \<Rightarrow> Program" where
  "f3_x1_program steps =
     \<lparr>prog_psi = \<lparr>psi_p = 3, psi_dim = 3\<rparr>,
      prog_val = \<lparr>val_kind = ascii ''x_eq_const'', val_args = [0, 0]\<rparr>,
      prog_steps = steps\<rparr>"

lemma foldl_compile_step_prefix:
  "\<exists>rest. foldl compile_step bc steps = bc @ rest"
proof (induction steps arbitrary: bc)
  case Nil
  then show ?case by simp
next
  case (Cons st steps)
  have "\<exists>r. compile_step bc st = bc @ r"
    by (simp add: compile_step_def)
  then obtain r where r: "compile_step bc st = bc @ r" by blast
  from Cons[of "bc @ r"] obtain r2 where "foldl compile_step (bc @ r) steps = (bc @ r) @ r2" by blast
  then show ?case using r by simp
qed

lemma build_mask_f3_x1: "build_mask 3 3 (x_eq 0 0) = Inr 511"
  by (simp add: build_mask_def rec_mask.simps loop_mask.simps x_eq_def bitset_set_def bitset_new_def)

lemma compile_f3_x1:
  "\<exists>rest. compile_to_ir (f3_x1_program steps) =
     Inr ([(instr OP_INIT)\<lparr>ins_i := 3\<rparr>, (instr OP_INIT)\<lparr>ins_b := IntV 3\<rparr>, instr OP_SEED,
           (instr OP_VMASK)\<lparr>ins_i := 511\<rparr>] @ rest)"
  using foldl_compile_step_prefix[of "[(instr OP_INIT)\<lparr>ins_i := 3\<rparr>, (instr OP_INIT)\<lparr>ins_b := IntV 3\<rparr>, instr OP_SEED,
           (instr OP_VMASK)\<lparr>ins_i := 511\<rparr>]" steps]
  by (simp add: compile_to_ir_def f3_x1_program_def build_mask_f3_x1)

lemma build_mask_bits:
  assumes "\<forall>t. length t = dim \<longrightarrow> cond t = Inr (P t)"
  shows "\<exists>m. build_mask (int dim) (int p) cond = Inr m
           \<and> (\<forall>i. bit m i \<longleftrightarrow> i < p ^ dim \<and> P (lex_tuples dim p ! i))"
proof -
  from build_mask_scan[OF assms, of p] obtain cs where
    r: "rec_mask (int dim) (int p) cond 0 (bitset_new (int p ^ dim), 0, replicate dim 0)
       = Inr (fst (scan P (lex_tuples dim p) (0, 0)), p ^ dim, cs)" by blast
  have "build_mask (int dim) (int p) cond = Inr (fst (scan P (lex_tuples dim p) (0, 0)))"
    using r by (simp add: build_mask_def)
  moreover have "bit (fst (scan P (lex_tuples dim p) (0, 0))) i \<longleftrightarrow> i < p ^ dim \<and> P (lex_tuples dim p ! i)" for i
    by (simp add: bit_scan length_lex_tuples)
  ultimately show ?thesis by blast
qed


lemma x_eq_first: "\<forall>t. length t = 3 \<longrightarrow> x_eq 0 0 t = Inr (t ! 0 = 0)"
  by (simp add: x_eq_def)

lemma bits_511: "{i. bit (511 :: int) i} = {..<9}"
proof -
  have m: "(511 :: int) = mask 9" by (simp add: mask_eq_exp_minus_1)
  have "{i. bit (mask 9 :: int) i} = {..<9}" by (auto simp add: bit_mask_iff)
  then show ?thesis by (simp only: m)
qed

text \<open>
  C6. For every field size \<open>p\<close> and dimension \<open>dim\<close> (so also for \<open>p \<ge> 2\<close>,
  \<open>dim \<ge> 1\<close>) and every predicate on tuples of length \<open>dim\<close>, \<open>build_mask\<close> returns a
  mask whose bit \<open>i\<close> is set exactly when \<open>i < p ^ dim\<close> and the predicate holds of the
  tuple at index \<open>i\<close> of the lexicographic enumeration; the index counter ends at
  \<open>p ^ dim\<close>; the enumeration has \<open>p ^ dim\<close> tuples, each tuple of digits in \<open>[0, p)\<close>
  exactly once, in strictly increasing lexicographic order. Compiling the validator
  \<open>x1 = 0\<close> over \<open>f3^3\<close> gives a \<open>VMASK\<close> whose set bits are the 9 of the 27 indices
  whose tuple has first coordinate 0.
\<close>

theorem build_mask_enumerates:
  assumes "\<forall>t. length t = dim \<longrightarrow> cond t = Inr (P t)"
  shows "(\<exists>m cs. rec_mask (int dim) (int p) cond 0 (bitset_new (int p ^ dim), 0, replicate dim 0)
                   = Inr (m, p ^ dim, cs)
            \<and> build_mask (int dim) (int p) cond = Inr m
            \<and> (\<forall>i. bit m i \<longleftrightarrow> i < p ^ dim \<and> P (lex_tuples dim p ! i)))
       \<and> length (lex_tuples dim p) = p ^ dim
       \<and> distinct (lex_tuples dim p)
       \<and> set (lex_tuples dim p) = {t. length t = dim \<and> set t \<subseteq> {0..<int p}}
       \<and> sorted_wrt lex_less (lex_tuples dim p)
       \<and> (\<exists>vm rest. compile_to_ir (f3_x1_program steps)
                = Inr ([(instr OP_INIT)\<lparr>ins_i := 3\<rparr>, (instr OP_INIT)\<lparr>ins_b := IntV 3\<rparr>,
                        instr OP_SEED, vm] @ rest)
            \<and> ins_op vm = OP_VMASK
            \<and> (\<forall>i. bit (ins_i vm) i \<longleftrightarrow> i < 27 \<and> lex_tuples 3 3 ! i ! 0 = 0)
            \<and> card {i. bit (ins_i vm) i} = 9)"
proof -
  from build_mask_scan[OF assms, of p] obtain cs where
    r: "rec_mask (int dim) (int p) cond 0 (bitset_new (int p ^ dim), 0, replicate dim 0)
       = Inr (fst (scan P (lex_tuples dim p) (0, 0)), p ^ dim, cs)" by blast
  have b: "build_mask (int dim) (int p) cond = Inr (fst (scan P (lex_tuples dim p) (0, 0)))"
    using r by (simp add: build_mask_def)
  have bits: "\<forall>i. bit (fst (scan P (lex_tuples dim p) (0, 0))) i \<longleftrightarrow> i < p ^ dim \<and> P (lex_tuples dim p ! i)"
    by (simp add: bit_scan length_lex_tuples)
  have general: "\<exists>m cs. rec_mask (int dim) (int p) cond 0 (bitset_new (int p ^ dim), 0, replicate dim 0)
                   = Inr (m, p ^ dim, cs)
            \<and> build_mask (int dim) (int p) cond = Inr m
            \<and> (\<forall>i. bit m i \<longleftrightarrow> i < p ^ dim \<and> P (lex_tuples dim p ! i))"
    using r b bits by blast
  from build_mask_bits[OF x_eq_first, of 3] build_mask_f3_x1
  have bits3: "\<forall>i. bit (511 :: int) i \<longleftrightarrow> i < 27 \<and> lex_tuples 3 3 ! i ! 0 = 0"
    by simp
  obtain rest where c: "compile_to_ir (f3_x1_program steps) =
     Inr ([(instr OP_INIT)\<lparr>ins_i := 3\<rparr>, (instr OP_INIT)\<lparr>ins_b := IntV 3\<rparr>, instr OP_SEED,
           (instr OP_VMASK)\<lparr>ins_i := 511\<rparr>] @ rest)"
    using compile_f3_x1 by blast
  have particular: "\<exists>vm rest. compile_to_ir (f3_x1_program steps)
                = Inr ([(instr OP_INIT)\<lparr>ins_i := 3\<rparr>, (instr OP_INIT)\<lparr>ins_b := IntV 3\<rparr>,
                        instr OP_SEED, vm] @ rest)
            \<and> ins_op vm = OP_VMASK
            \<and> (\<forall>i. bit (ins_i vm) i \<longleftrightarrow> i < 27 \<and> lex_tuples 3 3 ! i ! 0 = 0)
            \<and> card {i. bit (ins_i vm) i} = 9"
  proof (intro exI conjI)
    show "compile_to_ir (f3_x1_program steps)
        = Inr ([(instr OP_INIT)\<lparr>ins_i := 3\<rparr>, (instr OP_INIT)\<lparr>ins_b := IntV 3\<rparr>,
                instr OP_SEED, (instr OP_VMASK)\<lparr>ins_i := 511\<rparr>] @ rest)"
      by (rule c)
    show "ins_op ((instr OP_VMASK)\<lparr>ins_i := 511\<rparr>) = OP_VMASK" by (simp add: instr_def)
    show "\<forall>i. bit (ins_i ((instr OP_VMASK)\<lparr>ins_i := 511\<rparr>)) i \<longleftrightarrow> i < 27 \<and> lex_tuples 3 3 ! i ! 0 = 0"
      using bits3 by simp
    show "card {i. bit (ins_i ((instr OP_VMASK)\<lparr>ins_i := 511\<rparr>)) i} = 9"
      by (simp add: bits_511)
  qed
  show ?thesis
    using general particular length_lex_tuples distinct_lex_tuples set_lex_tuples sorted_lex_tuples
    by blast
qed

theorem build_mask_enumerates_witness:
  "\<exists>m. build_mask 3 3 (x_eq 0 0) = Inr m
     \<and> (\<forall>i. bit m i \<longleftrightarrow> i < 27 \<and> lex_tuples 3 3 ! i ! 0 = 0)
     \<and> length (lex_tuples 3 3) = 27"
  using build_mask_enumerates[OF x_eq_first, of 3 "[]"] by auto

section \<open>Formatting integers and joining strings\<close>

text \<open>\<open>str(n)\<close> for a natural number: its decimal digits.\<close>

fun str_nat :: "nat \<Rightarrow> str" where
  "str_nat n = (if n < 10 then [48 + n] else str_nat (n div 10) @ [48 + n mod 10])"

declare str_nat.simps [simp del]

definition str_int :: "int \<Rightarrow> str" where
  "str_int k = (if k < 0 then 45 # str_nat (nat (- k)) else str_nat (nat k))"

text \<open>The format \<open>{k:02d}\<close>: decimal, padded with zeros to at least two characters.\<close>

definition pad2 :: "nat \<Rightarrow> str" where
  "pad2 k = replicate (2 - length (str_nat k)) 48 @ str_nat k"

definition hex_digit :: "nat \<Rightarrow> nat" where
  "hex_digit d = (if d < 10 then 48 + d else 87 + d)"

fun hex_nat :: "nat \<Rightarrow> str" where
  "hex_nat n = (if n < 16 then [hex_digit n] else hex_nat (n div 16) @ [hex_digit (n mod 16)])"

declare hex_nat.simps [simp del]

text \<open>\<open>hex(k)\<close>: \<open>0x\<close> and lower-case digits, with a leading minus sign for a negative.\<close>

definition hex :: "int \<Rightarrow> str" where
  "hex k = (if k < 0 then ascii ''-0x'' @ hex_nat (nat (- k)) else ascii ''0x'' @ hex_nat (nat k))"

fun bit_length_nat :: "nat \<Rightarrow> nat" where
  "bit_length_nat n = (if n = 0 then 0 else Suc (bit_length_nat (n div 2)))"

declare bit_length_nat.simps [simp del]

text \<open>\<open>k.bit_length()\<close>: the number of bits of the absolute value.\<close>

definition bit_length :: "int \<Rightarrow> nat" where
  "bit_length k = bit_length_nat (nat \<bar>k\<bar>)"

text \<open>\<open>sep.join(xs)\<close>.\<close>

fun join :: "str \<Rightarrow> str list \<Rightarrow> str" where
  "join sep [] = []"
| "join sep [x] = x"
| "join sep (x # y # ys) = x @ sep @ join sep (y # ys)"

section \<open>Floats as the assembler uses them\<close>

text \<open>
  \<open>x > 0\<close> for a double: the sign bit is clear, and the value is neither zero nor a NaN.
\<close>

definition float_is_nan :: "64 word \<Rightarrow> bool" where
  "float_is_nan w = (w AND 0x7FF0000000000000 = 0x7FF0000000000000 \<and> w AND 0xFFFFFFFFFFFFF \<noteq> 0)"

definition float_gt0 :: "64 word \<Rightarrow> bool" where
  "float_gt0 w = (\<not> bit w 63 \<and> w \<noteq> 0 \<and> \<not> float_is_nan w)"

text \<open>
  \<open>int(x)\<close> for a double: truncation towards zero; OverflowError for an infinity and
  ValueError for a NaN.
\<close>

definition float_trunc :: "64 word \<Rightarrow> error + int" where
  "float_trunc w =
     (let e = unat (drop_bit 52 w AND 0x7FF); m = unat (w AND 0xFFFFFFFFFFFFF) in
      if e = 2047 then (if m = 0 then Inl OverflowError else Inl (ValueError (ascii ''cannot convert float NaN to integer'')))
      else if e = 0 then Inr 0
      else let mag = (if 1075 \<le> e then (2 ^ 52 + m) * 2 ^ (e - 1075) else (2 ^ 52 + m) div 2 ^ (1075 - e))
           in Inr (if bit w 63 then - int mag else int mag))"

fun num_gt0 :: "num \<Rightarrow> bool" where
  "num_gt0 (IntV n) = (n > 0)"
| "num_gt0 (FloatV w) = float_gt0 w"

fun num_to_int :: "num \<Rightarrow> error + int" where
  "num_to_int (IntV n) = Inr n"
| "num_to_int (FloatV w) = float_trunc w"

text \<open>
  \<open>str(x)\<close> of a float is the shortest decimal string that reads back as the same
  double. That algorithm belongs to the Python runtime, so it is the parameter
  \<open>frepr\<close> of the assembler.
\<close>

fun num_str :: "(64 word \<Rightarrow> str) \<Rightarrow> num \<Rightarrow> str" where
  "num_str frepr (IntV n) = str_int n"
| "num_str frepr (FloatV w) = frepr w"

section \<open>Assembler (asm.py)\<close>

text \<open>The dictionary of mnemonics, with its default \<open>OP\<close>.\<close>

definition mnemonic :: "int \<Rightarrow> str" where
  "mnemonic opc =
     (if opc = OP_SEED then ascii ''SEED''
      else if opc = OP_PROJ then ascii ''PROJ''
      else if opc = OP_METRICS then ascii ''METRICS''
      else if opc = OP_HALT then ascii ''HALT''
      else ascii ''OP'')"

text \<open>The string that one iteration of the loop of \<open>to_assembly\<close> appends to \<open>out\<close>.\<close>

definition asm_line :: "(64 word \<Rightarrow> str) \<Rightarrow> nat \<Rightarrow> Instr \<Rightarrow> error + str" where
  "asm_line frepr k ins =
     (if ins_op ins = OP_INIT \<and> ins_i ins > 0
      then Inr (pad2 k @ ascii '': INIT p='' @ str_int (ins_i ins))
      else if ins_op ins = OP_INIT \<and> num_gt0 (ins_b ins)
      then (case num_to_int (ins_b ins) of
              Inl e \<Rightarrow> Inl e
            | Inr n \<Rightarrow> Inr (pad2 k @ ascii '': INIT dim='' @ str_int n))
      else if ins_op ins = OP_VMASK
      then Inr (pad2 k @ ascii '': VMASK nbits='' @ str_nat (bit_length (ins_i ins))
                @ ascii '' hex='' @ take 18 (hex (ins_i ins)) @ ascii ''...'')
      else if ins_op ins = OP_GRAD
      then Inr (pad2 k @ ascii '': GRAD eta='' @ num_str frepr (ins_c ins))
      else Inr (pad2 k @ ascii '': '' @ mnemonic (ins_op ins)))"

text \<open>
  The loop \<open>for k,ins in enumerate(bc)\<close>, from index \<open>k\<close> on, with the list \<open>out\<close> built
  so far.
\<close>

fun asm_loop :: "(64 word \<Rightarrow> str) \<Rightarrow> nat \<Rightarrow> Instr list \<Rightarrow> str list \<Rightarrow> error + str list" where
  "asm_loop frepr k [] out = Inr out"
| "asm_loop frepr k (ins # bc) out =
     (case asm_line frepr k ins of
        Inl e \<Rightarrow> Inl e
      | Inr l \<Rightarrow> asm_loop frepr (k + 1) bc (out @ [l]))"

definition asm_lines :: "(64 word \<Rightarrow> str) \<Rightarrow> Instr list \<Rightarrow> error + str list" where
  "asm_lines frepr bc = asm_loop frepr 0 bc []"

text \<open>
  The separator of the final \<open>join\<close> is written \<open>"\\n"\<close> in the source: the two
  characters backslash and \<open>n\<close>, not a line feed.
\<close>

definition to_assembly :: "(64 word \<Rightarrow> str) \<Rightarrow> Instr list \<Rightarrow> error + str" where
  "to_assembly frepr bc =
     (case asm_lines frepr bc of Inl e \<Rightarrow> Inl e | Inr out \<Rightarrow> Inr (join [92, 110] out))"

subsection \<open>Binary form\<close>

type_synonym byte = "8 word"

text \<open>The \<open>k\<close> bytes of a natural number, least significant first.\<close>

definition le_bytes :: "nat \<Rightarrow> nat \<Rightarrow> byte list" where
  "le_bytes k n = map (\<lambda>j. of_nat (n div 256 ^ j mod 256)) [0..<k]"

text \<open>\<open>binascii.hexlify\<close>: two lower-case hex digits per byte.\<close>

definition hexlify :: "byte list \<Rightarrow> str" where
  "hexlify bs = concat (map (\<lambda>b. [hex_digit (unat b div 16), hex_digit (unat b mod 16)]) bs)"

text \<open>
  \<open>float(x)\<close>: the identity on a float. The conversion of an \<open>int\<close> to the nearest
  double (OverflowError when it is too large) is the parameter \<open>fo\<close>.
\<close>

fun num_float :: "(int \<Rightarrow> error + 64 word) \<Rightarrow> num \<Rightarrow> error + 64 word" where
  "num_float fo (IntV n) = fo n"
| "num_float fo (FloatV w) = Inr w"

text \<open>
  \<open>struct.pack('<BfffQ', op, a, b, c, q)\<close>: little-endian, no padding. \<open>B\<close> takes an
  integer in \<open>[0, 255]\<close> and \<open>Q\<close> one in \<open>[0, 2^64)\<close>, else \<open>struct.error\<close>. The format
  \<open>f\<close> rounds a double to IEEE 754 binary32 (OverflowError when it does not fit); that
  conversion is the parameter \<open>pf\<close>, which gives the 32 bits.
\<close>

definition struct_pack_BfffQ ::
  "(64 word \<Rightarrow> error + 32 word) \<Rightarrow> int \<Rightarrow> 64 word \<Rightarrow> 64 word \<Rightarrow> 64 word \<Rightarrow> int \<Rightarrow> error + byte list" where
  "struct_pack_BfffQ pf opc x y z q =
     (if opc < 0 \<or> 255 < opc then Inl StructError
      else case pf x of Inl e \<Rightarrow> Inl e | Inr wa \<Rightarrow>
           (case pf y of Inl e \<Rightarrow> Inl e | Inr wb \<Rightarrow>
           (case pf z of Inl e \<Rightarrow> Inl e | Inr wc \<Rightarrow>
           (if q < 0 \<or> 2 ^ 64 \<le> q then Inl StructError
            else Inr ([of_int opc] @ le_bytes 4 (unat wa) @ le_bytes 4 (unat wb)
                      @ le_bytes 4 (unat wc) @ le_bytes 8 (nat q))))))"

text \<open>The blob of one instruction: the arguments are evaluated first, then packed.\<close>

definition instr_blob ::
  "(int \<Rightarrow> error + 64 word) \<Rightarrow> (64 word \<Rightarrow> error + 32 word) \<Rightarrow> Instr \<Rightarrow> error + byte list" where
  "instr_blob fo pf ins =
     (case num_float fo (ins_a ins) of Inl e \<Rightarrow> Inl e | Inr x \<Rightarrow>
     (case num_float fo (ins_b ins) of Inl e \<Rightarrow> Inl e | Inr y \<Rightarrow>
     (case num_float fo (ins_c ins) of Inl e \<Rightarrow> Inl e | Inr z \<Rightarrow>
        struct_pack_BfffQ pf (ins_op ins) x y z (ins_i ins AND (push_bit 64 1 - 1)))))"

fun bytes_loop ::
  "(int \<Rightarrow> error + 64 word) \<Rightarrow> (64 word \<Rightarrow> error + 32 word) \<Rightarrow> Instr list \<Rightarrow> str list \<Rightarrow> error + str list" where
  "bytes_loop fo pf [] chunks = Inr chunks"
| "bytes_loop fo pf (ins # bc) chunks =
     (case instr_blob fo pf ins of
        Inl e \<Rightarrow> Inl e
      | Inr blob \<Rightarrow> bytes_loop fo pf bc (chunks @ [hexlify blob]))"

definition to_bytes ::
  "(int \<Rightarrow> error + 64 word) \<Rightarrow> (64 word \<Rightarrow> error + 32 word) \<Rightarrow> Instr list \<Rightarrow> error + str" where
  "to_bytes fo pf bc =
     (case bytes_loop fo pf bc [] of Inl e \<Rightarrow> Inl e | Inr chunks \<Rightarrow> Inr (join [] chunks))"

text \<open>
  Three values of the runtime's conversions, enough to run the instructions that the
  compiler emits for small programs: \<open>float(n)\<close> for \<open>n\<close> in 0, 1, 3; binary32 of
  0.0, 1.0, 3.0 and 0.1; \<open>str\<close> of 0.0, 1.0 and 0.1. Everything else is outside these
  tables.
\<close>

definition sample_float_of_int :: "int \<Rightarrow> error + 64 word" where
  "sample_float_of_int n =
     (if n = 0 then Inr 0 else if n = 1 then Inr 0x3FF0000000000000
      else if n = 3 then Inr 0x4008000000000000 else Inl OverflowError)"

definition sample_pack_f32 :: "64 word \<Rightarrow> error + 32 word" where
  "sample_pack_f32 w =
     (if w = 0 then Inr 0 else if w = 0x3FF0000000000000 then Inr 0x3F800000
      else if w = 0x4008000000000000 then Inr 0x40400000
      else if w = 0x3FB999999999999A then Inr 0x3DCCCCCD else Inl OverflowError)"

definition sample_float_repr :: "64 word \<Rightarrow> str" where
  "sample_float_repr w =
     (if w = 0 then ascii ''0.0'' else if w = 0x3FF0000000000000 then ascii ''1.0''
      else if w = 0x3FB999999999999A then ascii ''0.1'' else ascii ''?'')"

definition grad_instr :: Instr where
  "grad_instr = (instr OP_GRAD)\<lparr>ins_a := FloatV float_1_0, ins_b := FloatV float_1_0,
                                  ins_c := FloatV float_0_1\<rparr>"


text \<open>Reading bytes back: the value of a little-endian byte string.\<close>

fun le_value :: "byte list \<Rightarrow> nat" where
  "le_value [] = 0"
| "le_value (b # bs) = unat b + 256 * le_value bs"

lemma length_le_bytes: "length (le_bytes k n) = k"
  by (simp add: le_bytes_def)

lemma le_value_append: "le_value (xs @ ys) = le_value xs + 256 ^ length xs * le_value ys"
  by (induction xs) (simp_all add: algebra_simps)

lemma le_bytes_Suc: "le_bytes (Suc k) n = le_bytes k n @ [of_nat (n div 256 ^ k mod 256)]"
  by (simp add: le_bytes_def)

lemma le_value_le_bytes: "le_value (le_bytes k n) = n mod 256 ^ k"
proof (induction k)
  case 0
  then show ?case by (simp add: le_bytes_def)
next
  case (Suc k)
  have u: "unat (of_nat (n div 256 ^ k mod 256) :: byte) = n div 256 ^ k mod 256"
    by (simp add: unat_of_nat)
  have "le_value (le_bytes (Suc k) n) = n mod 256 ^ k + 256 ^ k * (n div 256 ^ k mod 256)"
    by (simp add: le_bytes_Suc le_value_append Suc length_le_bytes u)
  also have "\<dots> = n mod (256 ^ k * 256)"
    by (simp add: mod_mult2_eq)
  finally show ?case by (simp add: mult.commute)
qed

lemma length_hexlify: "length (hexlify bs) = 2 * length bs"
  by (induction bs) (simp_all add: hexlify_def)

lemma hexlify_append: "hexlify (xs @ ys) = hexlify xs @ hexlify ys"
  by (simp add: hexlify_def)

lemma hexlify_concat: "hexlify (concat xss) = concat (map hexlify xss)"
  by (induction xss) (simp_all add: hexlify_append, simp add: hexlify_def)

lemma join_empty: "join [] xs = concat xs"
  by (induction "[] :: str" xs rule: join.induct) simp_all

lemma and_mask64: "(k :: int) AND (push_bit 64 1 - 1) = k mod 2 ^ 64"
proof -
  have "(push_bit 64 1 - 1 :: int) = mask 64" by (simp add: mask_eq_exp_minus_1)
  then have "k AND (push_bit 64 1 - 1) = take_bit 64 k" by (simp only: take_bit_eq_mask)
  then show ?thesis by (simp only: take_bit_eq_mod)
qed

lemma struct_pack_Inr:
  assumes "struct_pack_BfffQ pf opc x y z q = Inr r"
  shows "\<exists>wa wb wc. pf x = Inr wa \<and> pf y = Inr wb \<and> pf z = Inr wc \<and> 0 \<le> opc \<and> opc \<le> 255
     \<and> r = [of_int opc] @ le_bytes 4 (unat wa) @ le_bytes 4 (unat wb)
                @ le_bytes 4 (unat wc) @ le_bytes 8 (nat q)"
  using assms unfolding struct_pack_BfffQ_def
  by (auto split: sum.splits if_splits)

lemma bytes_loop_blobs:
  "bytes_loop fo pf bc chunks = Inr out \<Longrightarrow>
     \<exists>blobs. list_all2 (\<lambda>ins r. instr_blob fo pf ins = Inr r) bc blobs
            \<and> out = chunks @ map hexlify blobs"
proof (induction bc arbitrary: chunks)
  case Nil
  then show ?case by simp
next
  case (Cons ins bc)
  from Cons.prems obtain blob where b: "instr_blob fo pf ins = Inr blob"
    and l: "bytes_loop fo pf bc (chunks @ [hexlify blob]) = Inr out"
    by (auto split: sum.splits)
  from Cons.IH[OF l] obtain blobs where
    "list_all2 (\<lambda>ins r. instr_blob fo pf ins = Inr r) bc blobs"
    "out = (chunks @ [hexlify blob]) @ map hexlify blobs" by blast
  then have "list_all2 (\<lambda>ins r. instr_blob fo pf ins = Inr r) (ins # bc) (blob # blobs)
      \<and> out = chunks @ map hexlify (blob # blobs)"
    using b by simp
  then show ?case by blast
qed

lemma instr_blob_record:
  assumes "instr_blob fo pf ins = Inr r"
  shows "length r = 21 \<and> uint (r ! 0) = ins_op ins
     \<and> (\<exists>x y z. num_float fo (ins_a ins) = Inr x \<and> num_float fo (ins_b ins) = Inr y
           \<and> num_float fo (ins_c ins) = Inr z
           \<and> pf x = Inr (of_nat (le_value (take 4 (drop 1 r))))
           \<and> pf y = Inr (of_nat (le_value (take 4 (drop 5 r))))
           \<and> pf z = Inr (of_nat (le_value (take 4 (drop 9 r)))))
     \<and> int (le_value (drop 13 r)) = ins_i ins mod 2 ^ 64"
proof -
  from assms obtain x y z where
    x: "num_float fo (ins_a ins) = Inr x" and y: "num_float fo (ins_b ins) = Inr y"
    and z: "num_float fo (ins_c ins) = Inr z"
    and p: "struct_pack_BfffQ pf (ins_op ins) x y z (ins_i ins AND (push_bit 64 1 - 1)) = Inr r"
    unfolding instr_blob_def by (auto split: sum.splits)
  from struct_pack_Inr[OF p] obtain wa wb wc where
    wa: "pf x = Inr wa" and wb: "pf y = Inr wb" and wc: "pf z = Inr wc"
    and opc: "0 \<le> ins_op ins" "ins_op ins \<le> 255"
    and r0: "r = [of_int (ins_op ins)] @ le_bytes 4 (unat wa) @ le_bytes 4 (unat wb)
                @ le_bytes 4 (unat wc) @ le_bytes 8 (nat (ins_i ins AND (push_bit 64 1 - 1)))"
    by blast
  have r: "r = [of_int (ins_op ins)] @ le_bytes 4 (unat wa) @ le_bytes 4 (unat wb)
                @ le_bytes 4 (unat wc) @ le_bytes 8 (nat (ins_i ins mod 2 ^ 64))"
    using r0 by (simp only: and_mask64)
  have len: "length r = 21" by (simp add: r length_le_bytes)
  have op0: "uint (r ! 0) = ins_op ins"
    using opc by (simp add: r uint_word_of_int)
  have d1: "take 4 (drop 1 r) = le_bytes 4 (unat wa)" by (simp add: r length_le_bytes)
  have d5: "take 4 (drop 5 r) = le_bytes 4 (unat wb)" by (simp add: r length_le_bytes)
  have d9: "take 4 (drop 9 r) = le_bytes 4 (unat wc)" by (simp add: r length_le_bytes)
  have d13: "drop 13 r = le_bytes 8 (nat (ins_i ins mod 2 ^ 64))" by (simp add: r length_le_bytes)
  have w32: "of_nat (unat w mod 256 ^ 4) = w" for w :: "32 word"
  proof -
    have "unat w < 256 ^ 4" using unsigned_less[of w, where ?'a = nat] by simp
    then show ?thesis by simp
  qed
  have q: "int (nat (ins_i ins mod 2 ^ 64) mod 256 ^ 8) = ins_i ins mod 2 ^ 64"
  proof -
    have "nat (ins_i ins mod 2 ^ 64) < 256 ^ 8"
      by (simp add: nat_less_iff)
    then show ?thesis by simp
  qed
  have f1: "of_nat (le_value (take 4 (drop 1 r))) = wa" by (simp only: d1 le_value_le_bytes w32)
  have f2: "of_nat (le_value (take 4 (drop 5 r))) = wb" by (simp only: d5 le_value_le_bytes w32)
  have f3: "of_nat (le_value (take 4 (drop 9 r))) = wc" by (simp only: d9 le_value_le_bytes w32)
  have f4: "int (le_value (drop 13 r)) = ins_i ins mod 2 ^ 64"
    by (simp only: d13 le_value_le_bytes q)
  show ?thesis
    unfolding f1 f2 f3 using x y z wa wb wc len op0 f4 by blast
qed


lemma length_concat_records:
  "list_all2 (\<lambda>ins r. length r = 21 \<and> Q ins r) bc recs \<Longrightarrow> length (concat recs) = 21 * length bc"
  by (induction bc recs rule: list_all2_induct) simp_all

text \<open>
  C1, as the code has it. The format \<open><BfffQ\<close> has no padding, so a record is
  1 + 4 + 4 + 4 + 8 = 21 bytes, not 16. Whenever \<open>to_bytes\<close> returns, its result is the
  hex encoding of the concatenation of one 21-byte record per instruction, in order:
  byte 0 is the opcode, bytes 1 to 12 are the binary32 conversions of \<open>float(a)\<close>,
  \<open>float(b)\<close>, \<open>float(c)\<close> in little-endian order, and bytes 13 to 20 are the integer
  operand modulo \<open>2^64\<close>, little-endian.
\<close>

theorem to_bytes_records:
  assumes "to_bytes fo pf bc = Inr s"
  shows "\<exists>recs. s = hexlify (concat recs) \<and> length s = 42 * length bc
     \<and> list_all2 (\<lambda>ins r. length r = 21 \<and> (uint (r ! 0) = ins_op ins
           \<and> (\<exists>x y z. num_float fo (ins_a ins) = Inr x \<and> num_float fo (ins_b ins) = Inr y
                 \<and> num_float fo (ins_c ins) = Inr z
                 \<and> pf x = Inr (of_nat (le_value (take 4 (drop 1 r))))
                 \<and> pf y = Inr (of_nat (le_value (take 4 (drop 5 r))))
                 \<and> pf z = Inr (of_nat (le_value (take 4 (drop 9 r)))))
           \<and> int (le_value (drop 13 r)) = ins_i ins mod 2 ^ 64)) bc recs"
proof -
  from assms obtain chunks where l: "bytes_loop fo pf bc [] = Inr chunks" and s: "s = join [] chunks"
    unfolding to_bytes_def by (auto split: sum.splits)
  from bytes_loop_blobs[OF l] obtain recs where
    a: "list_all2 (\<lambda>ins r. instr_blob fo pf ins = Inr r) bc recs" and c: "chunks = map hexlify recs"
    by auto
  let ?R = "\<lambda>ins r. length r = 21 \<and> (uint (r ! 0) = ins_op ins
           \<and> (\<exists>x y z. num_float fo (ins_a ins) = Inr x \<and> num_float fo (ins_b ins) = Inr y
                 \<and> num_float fo (ins_c ins) = Inr z
                 \<and> pf x = Inr (of_nat (le_value (take 4 (drop 1 r))))
                 \<and> pf y = Inr (of_nat (le_value (take 4 (drop 5 r))))
                 \<and> pf z = Inr (of_nat (le_value (take 4 (drop 9 r)))))
           \<and> int (le_value (drop 13 r)) = ins_i ins mod 2 ^ 64)"
  have b: "list_all2 ?R bc recs"
    using a by (rule list_all2_mono) (use instr_blob_record in blast)
  have h: "s = hexlify (concat recs)"
    by (simp add: s c join_empty hexlify_concat)
  have "length s = 42 * length bc"
    using length_concat_records[OF b] by (simp add: h length_hexlify)
  with h b show ?thesis by blast
qed

lemma to_bytes_seed_grad:
  "to_bytes sample_float_of_int sample_pack_f32 [instr OP_SEED, grad_instr] =
   Inr (ascii ''020000000000000000000000000000000000000000040000803f0000803fcdcccc3d0000000000000000'')"
  by (simp add: to_bytes_def instr_blob_def struct_pack_BfffQ_def instr_def OP_SEED_def OP_GRAD_def
      grad_instr_def sample_pack_f32_def float_0_0_def float_1_0_def float_0_1_def le_bytes_def
      hexlify_def hex_digit_def ascii_def upt_rec)

theorem to_bytes_records_witness:
  "to_bytes sample_float_of_int sample_pack_f32 [instr OP_SEED, grad_instr] =
     Inr (ascii ''020000000000000000000000000000000000000000040000803f0000803fcdcccc3d0000000000000000'')
   \<and> (\<exists>recs. length recs = 2 \<and>
         ascii ''020000000000000000000000000000000000000000040000803f0000803fcdcccc3d0000000000000000''
           = hexlify (concat recs))"
proof -
  from to_bytes_records[OF to_bytes_seed_grad] obtain recs where
    "ascii ''020000000000000000000000000000000000000000040000803f0000803fcdcccc3d0000000000000000''
       = hexlify (concat recs)"
    and "list_all2 (\<lambda>ins r. length r = 21 \<and> (uint (r ! 0) = ins_op ins
           \<and> (\<exists>x y z. num_float sample_float_of_int (ins_a ins) = Inr x
                 \<and> num_float sample_float_of_int (ins_b ins) = Inr y
                 \<and> num_float sample_float_of_int (ins_c ins) = Inr z
                 \<and> sample_pack_f32 x = Inr (of_nat (le_value (take 4 (drop 1 r))))
                 \<and> sample_pack_f32 y = Inr (of_nat (le_value (take 4 (drop 5 r))))
                 \<and> sample_pack_f32 z = Inr (of_nat (le_value (take 4 (drop 9 r)))))
           \<and> int (le_value (drop 13 r)) = ins_i ins mod 2 ^ 64)) [instr OP_SEED, grad_instr] recs"
    by blast
  then have "length recs = 2 \<and>
      ascii ''020000000000000000000000000000000000000000040000803f0000803fcdcccc3d0000000000000000''
        = hexlify (concat recs)"
    by (auto dest: list_all2_lengthD)
  with to_bytes_seed_grad show ?thesis by blast
qed

text \<open>
  C1 as stated fails: the record of the single instruction \<open>SEED\<close> is 21 bytes
  (42 hex digits), not 16 bytes (32 hex digits).
\<close>

theorem to_bytes_record_is_21_bytes:
  "to_bytes sample_float_of_int sample_pack_f32 [instr OP_SEED] =
     Inr (ascii ''020000000000000000000000000000000000000000'')
   \<and> length (ascii ''020000000000000000000000000000000000000000'') = 2 * 21
   \<and> length (ascii ''020000000000000000000000000000000000000000'') \<noteq> 2 * 16"
  by (simp add: to_bytes_def instr_blob_def struct_pack_BfffQ_def instr_def OP_SEED_def
      sample_pack_f32_def float_0_0_def le_bytes_def hexlify_def hex_digit_def ascii_def upt_rec)

section \<open>String operations of the Python runtime\<close>

text \<open>
  \<open>str.isspace\<close> on one character: the Unicode whitespace characters. \<open>strip()\<close> and
  \<open>split()\<close> without arguments use the same set.
\<close>

definition isspace :: "nat \<Rightarrow> bool" where
  "isspace c = (c \<in> {9, 10, 11, 12, 13, 28, 29, 30, 31, 32, 133, 160, 5760, 8232, 8233, 8239, 8287, 12288}
                \<or> (8192 \<le> c \<and> c \<le> 8202))"

text \<open>\<open>s.split(sep)\<close> for a separator of one character: never the empty list.\<close>

fun split_on :: "nat \<Rightarrow> str \<Rightarrow> str list" where
  "split_on c [] = [[]]"
| "split_on c (x # xs) =
     (if x = c then [] # split_on c xs
      else (case split_on c xs of w # ws \<Rightarrow> (x # w) # ws | [] \<Rightarrow> [[x]]))"

text \<open>\<open>s.strip()\<close>.\<close>

definition strip :: "str \<Rightarrow> str" where
  "strip s = rev (dropWhile isspace (rev (dropWhile isspace s)))"

text \<open>\<open>s.split()\<close>: the maximal runs of characters that are not whitespace.\<close>

function py_split :: "str \<Rightarrow> str list" where
  "py_split s =
     (case dropWhile isspace s of
        [] \<Rightarrow> []
      | c # cs \<Rightarrow> (c # takeWhile (\<lambda>x. \<not> isspace x) cs) # py_split (dropWhile (\<lambda>x. \<not> isspace x) cs))"
  by pat_completeness auto
termination
proof (relation "measure length")
  show "wf (measure length)" by simp
next
  fix s :: str and c cs
  assume a: "dropWhile isspace s = c # cs"
  have "length (dropWhile (\<lambda>x. \<not> isspace x) cs) \<le> length cs"
    by (rule length_dropWhile_le)
  moreover have "length (c # cs) \<le> length s"
    using length_dropWhile_le[of isspace s] a by simp
  ultimately show "(dropWhile (\<lambda>x. \<not> isspace x) cs, s) \<in> measure length" by simp
qed

declare py_split.simps [simp del]

text \<open>\<open>s.startswith(t)\<close>.\<close>

definition startswith :: "str \<Rightarrow> str \<Rightarrow> bool" where
  "startswith s t = (take (length t) s = t)"

section \<open>Canonicalizer (asc7.py)\<close>

text \<open>
  \<open>_ASC7_MAP.get(ch, ch)\<close>: curly double quotes, curly single quotes, em and en dash,
  no-break space, tab, carriage return and form feed.
\<close>

definition asc7_map :: "nat \<Rightarrow> nat" where
  "asc7_map ch =
     (if ch = 0x201C \<or> ch = 0x201D then 0x22
      else if ch = 0x2018 \<or> ch = 0x2019 then 0x27
      else if ch = 0x2014 \<or> ch = 0x2013 then 0x2D
      else if ch = 0xA0 \<or> ch = 9 \<or> ch = 13 \<or> ch = 12 then 0x20
      else ch)"

text \<open>
  The loop over the lines, with the list \<open>lines\<close> built so far.
\<close>

fun canon_loop :: "str list \<Rightarrow> str list \<Rightarrow> str list" where
  "canon_loop [] out = out"
| "canon_loop (ln # rest) out =
     (let ln' = join [32] (py_split (strip ln))
      in if ln' \<noteq> [] \<and> \<not> startswith ln' [47, 47] then canon_loop rest (out @ [ln'])
         else canon_loop rest out)"

text \<open>
  \<open>ch.lower()\<close> on one character gives a string (of one character, or of two for
  U+0130). It is the Unicode table of the runtime, the parameter \<open>lower\<close>.
\<close>

definition canonicalize :: "(nat \<Rightarrow> str) \<Rightarrow> str \<Rightarrow> str" where
  "canonicalize lower source =
     (let s = concat (map (\<lambda>ch. lower (asc7_map ch)) source)
      in join [10] (canon_loop (split_on 10 s) []))"

text \<open>Lower-casing on ASCII: the table of the runtime, cut down to the ASCII letters.\<close>

definition ascii_lower :: "nat \<Rightarrow> str" where
  "ascii_lower c = (if 65 \<le> c \<and> c \<le> 90 then [c + 32] else [c])"


subsection \<open>Idempotence\<close>

definition norm_line :: "str \<Rightarrow> str" where
  "norm_line ln = join [32] (py_split (strip ln))"

definition keep_line :: "str \<Rightarrow> bool" where
  "keep_line l = (l \<noteq> [] \<and> \<not> startswith l [47, 47])"

lemma canon_loop_filter:
  "canon_loop lns out = out @ filter keep_line (map norm_line lns)"
  by (induction lns arbitrary: out) (simp_all add: Let_def norm_line_def keep_line_def)

definition word_ok :: "str \<Rightarrow> bool" where
  "word_ok w = (w \<noteq> [] \<and> list_all (\<lambda>x. \<not> isspace x) w)"

lemma py_split_Nil: "py_split [] = []"
  by (subst py_split.simps) simp

lemma py_split_dropWhile: "py_split (dropWhile isspace s) = py_split s"
proof -
  have "py_split (dropWhile isspace s) =
     (case dropWhile isspace (dropWhile isspace s) of
        [] \<Rightarrow> []
      | c # cs \<Rightarrow> (c # takeWhile (\<lambda>x. \<not> isspace x) cs) # py_split (dropWhile (\<lambda>x. \<not> isspace x) cs))"
    by (rule py_split.simps)
  also have "\<dots> = py_split s"
    by (simp add: py_split.simps[of s, symmetric])
  finally show ?thesis .
qed

lemma py_split_space: "isspace x \<Longrightarrow> py_split (x # s) = py_split s"
  using py_split_dropWhile[of "x # s"] py_split_dropWhile[of s] by simp

lemma py_split_word:
  assumes "word_ok w" and "rest = [] \<or> isspace (hd rest)"
  shows "py_split (w @ rest) = w # py_split rest"
proof -
  from assms(1) obtain c cs where w: "w = c # cs" and c: "\<not> isspace c"
    and cs: "\<forall>x\<in>set cs. \<not> isspace x"
    by (cases w) (auto simp: word_ok_def list_all_iff)
  have t0: "takeWhile (\<lambda>x. \<not> isspace x) rest = []" using assms(2) by (cases rest) auto
  have d0: "dropWhile (\<lambda>x. \<not> isspace x) rest = rest" using assms(2) by (cases rest) auto
  have t: "takeWhile (\<lambda>x. \<not> isspace x) (cs @ rest) = cs"
    using cs t0 by (simp add: takeWhile_append2)
  have d: "dropWhile (\<lambda>x. \<not> isspace x) (cs @ rest) = rest"
    using cs d0 by (simp add: dropWhile_append2)
  show ?thesis
    by (subst py_split.simps) (simp add: w c t d)
qed

lemma py_split_join:
  "list_all word_ok ws \<Longrightarrow> py_split (join [32] ws) = ws"
proof (induction "[32::nat]" ws rule: join.induct)
  case 1
  then show ?case by (simp add: py_split_Nil)
next
  case (2 x)
  then show ?case using py_split_word[of x "[]"] by (simp add: py_split_Nil)
next
  case (3 x y ys)
  have sp: "isspace 32" by (simp add: isspace_def)
  have "py_split (x @ 32 # join [32] (y # ys)) = x # py_split (32 # join [32] (y # ys))"
    using py_split_word[of x "32 # join [32] (y # ys)"] 3 sp by simp
  also have "\<dots> = x # y # ys"
    using 3 sp by (simp add: py_split_space)
  finally show ?case by simp
qed

lemma py_split_words: "list_all word_ok (py_split s)"
proof (induction s rule: py_split.induct)
  case (1 s)
  show ?case
  proof (cases "dropWhile isspace s")
    case Nil
    then show ?thesis by (subst py_split.simps) (simp only: list.case list.pred_inject)
  next
    case (Cons c cs)
    have c: "\<not> isspace c" using Cons by (metis hd_dropWhile list.sel(1) list.distinct(1))
    have w: "word_ok (c # takeWhile (\<lambda>x. \<not> isspace x) cs)"
      using c by (auto simp add: word_ok_def list_all_iff dest: set_takeWhileD)
    show ?thesis
      using 1[OF Cons] w by (subst py_split.simps) (simp add: Cons)
  qed
qed

lemma strip_id:
  assumes "s = [] \<or> (\<not> isspace (hd s) \<and> \<not> isspace (last s))"
  shows "strip s = s"
proof (cases s)
  case Nil
  then show ?thesis by (simp add: strip_def)
next
  case (Cons x xs)
  have a: "dropWhile isspace s = s" using assms Cons by simp
  have "hd (rev s) = last s" using Cons by (simp add: hd_rev)
  then have b: "dropWhile isspace (rev s) = rev s"
    using assms Cons by (cases "rev s") auto
  show ?thesis by (simp add: strip_def a b)
qed

lemma join_ends:
  "list_all word_ok ws \<Longrightarrow> ws \<noteq> [] \<Longrightarrow>
     join [32] ws \<noteq> [] \<and> hd (join [32] ws) = hd (hd ws) \<and> last (join [32] ws) = last (last ws)"
proof (induction "[32::nat]" ws rule: join.induct)
  case 1
  then show ?case by simp
next
  case (2 x)
  then show ?case by (simp add: word_ok_def)
next
  case (3 x y ys)
  then show ?case by (auto simp add: word_ok_def)
qed

lemma strip_join: "list_all word_ok ws \<Longrightarrow> strip (join [32] ws) = join [32] ws"
proof (cases ws)
  case Nil
  then show ?thesis by (simp add: strip_def)
next
  case (Cons w ws')
  assume a: "list_all word_ok ws"
  have "word_ok (hd ws)" "word_ok (last ws)"
    using a Cons by (auto simp add: list_all_iff)
  then have "\<not> isspace (hd (hd ws))" "\<not> isspace (last (last ws))"
    by (auto simp add: word_ok_def list_all_iff)
  then show ?thesis
    using join_ends[OF a] Cons by (intro strip_id) simp
qed

lemma norm_line_fix: "norm_line (norm_line ln) = norm_line ln"
  unfolding norm_line_def
  by (simp add: strip_join py_split_join py_split_words)


lemma split_on_nonempty: "split_on c s \<noteq> []"
  by (induction s) (auto split: list.splits)

lemma split_on_notin: "c \<notin> set l \<Longrightarrow> split_on c l = [l]"
  by (induction l) auto

lemma split_on_app: "c \<notin> set l \<Longrightarrow> split_on c (l @ c # rest) = l # split_on c rest"
  by (induction l) (auto split: list.splits)

lemma split_on_join:
  "ls \<noteq> [] \<Longrightarrow> \<forall>l\<in>set ls. c \<notin> set l \<Longrightarrow> split_on c (join [c] ls) = ls"
proof (induction "[c]" ls rule: join.induct)
  case 1
  then show ?case by simp
next
  case (2 x)
  then show ?case by (simp add: split_on_notin)
next
  case (3 x y ys)
  then show ?case using split_on_app[of c x "join [c] (y # ys)"] by simp
qed

lemma set_join: "x \<in> set (join sep ls) \<Longrightarrow> x \<in> set sep \<or> (\<exists>l\<in>set ls. x \<in> set l)"
  by (induction sep ls rule: join.induct) auto

lemma set_split_on: "l \<in> set (split_on c s) \<Longrightarrow> x \<in> set l \<Longrightarrow> x \<in> set s"
proof (induction s arbitrary: l)
  case Nil
  then show ?case by simp
next
  case (Cons a s)
  obtain w ws where sp: "split_on c s = w # ws"
    using split_on_nonempty[of c s] by (cases "split_on c s") auto
  show ?case
  proof (cases "a = c")
    case True
    then show ?thesis using Cons by auto
  next
    case False
    then have "l = a # w \<or> l \<in> set ws" using Cons.prems(1) sp by simp
    then show ?thesis
    proof
      assume "l = a # w"
      then show ?thesis using Cons.prems(2) Cons.IH[of w] sp by auto
    next
      assume "l \<in> set ws"
      then show ?thesis using Cons.prems(2) Cons.IH[of l] sp by auto
    qed
  qed
qed

lemma set_strip: "x \<in> set (strip s) \<Longrightarrow> x \<in> set s"
  unfolding strip_def by (auto dest!: set_dropWhileD)

lemma set_py_split: "w \<in> set (py_split s) \<Longrightarrow> x \<in> set w \<Longrightarrow> x \<in> set s"
proof (induction s arbitrary: w rule: py_split.induct)
  case (1 s)
  show ?case
  proof (cases "dropWhile isspace s")
    case Nil
    have "py_split s = []" by (subst py_split.simps) (simp only: Nil list.case)
    then show ?thesis using 1(2) by simp
  next
    case (Cons c cs)
    have ps: "py_split s = (c # takeWhile (\<lambda>x. \<not> isspace x) cs) # py_split (dropWhile (\<lambda>x. \<not> isspace x) cs)"
      by (subst py_split.simps) (simp only: Cons list.case)
    have sub: "set (c # cs) \<subseteq> set s"
      using set_dropWhileD[of _ isspace s] Cons by auto
    from 1(2) ps have "w = c # takeWhile (\<lambda>x. \<not> isspace x) cs
        \<or> w \<in> set (py_split (dropWhile (\<lambda>x. \<not> isspace x) cs))" by simp
    then show ?thesis
    proof
      assume "w = c # takeWhile (\<lambda>x. \<not> isspace x) cs"
      then have "x \<in> set (c # cs)" using 1(3) by (auto dest: set_takeWhileD)
      then show ?thesis using sub by blast
    next
      assume "w \<in> set (py_split (dropWhile (\<lambda>x. \<not> isspace x) cs))"
      from 1(1)[OF Cons this 1(3)] have "x \<in> set cs" by (auto dest: set_dropWhileD)
      then show ?thesis using sub by auto
    qed
  qed
qed

lemma norm_line_chars:
  assumes "x \<in> set (norm_line ln)"
  shows "x = 32 \<or> (x \<in> set ln \<and> \<not> isspace x)"
proof -
  from set_join[OF assms[unfolded norm_line_def]]
  have "x = 32 \<or> (\<exists>w\<in>set (py_split (strip ln)). x \<in> set w)" by simp
  then show ?thesis
  proof
    assume "x = 32" then show ?thesis by simp
  next
    assume "\<exists>w\<in>set (py_split (strip ln)). x \<in> set w"
    then obtain w where w: "w \<in> set (py_split (strip ln))" and x: "x \<in> set w" by blast
    have "word_ok w" using py_split_words[of "strip ln"] w by (simp add: list_all_iff)
    then have "\<not> isspace x" using x by (simp add: word_ok_def list_all_iff)
    moreover have "x \<in> set ln" using set_py_split[OF w x] by (rule set_strip)
    ultimately show ?thesis by simp
  qed
qed

lemma norm_line_no_newline: "10 \<notin> set (norm_line ln)"
  using norm_line_chars[of 10 ln] by (auto simp add: isspace_def)

definition lines_of :: "str \<Rightarrow> str list" where
  "lines_of s = filter keep_line (map norm_line (split_on 10 s))"

lemma norm_line_Nil: "norm_line [] = []"
  by (simp add: norm_line_def strip_def py_split_Nil)

lemma lines_of_join: "lines_of (join [10] (lines_of s)) = lines_of s"
proof (cases "lines_of s = []")
  case True
  then show ?thesis by (simp add: lines_of_def norm_line_Nil keep_line_def)
next
  case False
  have nl: "\<forall>l\<in>set (lines_of s). 10 \<notin> set l"
    by (auto simp add: lines_of_def norm_line_no_newline)
  have sp: "split_on 10 (join [10] (lines_of s)) = lines_of s"
    using split_on_join[OF False nl] .
  have fx: "map norm_line (lines_of s) = lines_of s"
    by (rule map_idI) (auto simp add: lines_of_def norm_line_fix)
  have "filter keep_line (lines_of s) = lines_of s"
    by (simp add: lines_of_def)
  then show ?thesis
    by (simp add: lines_of_def[of "join [10] (lines_of s)"] sp fx)
qed

lemma lines_of_chars:
  assumes "x \<in> set (join [10] (lines_of s))"
  shows "x = 10 \<or> x = 32 \<or> (x \<in> set s \<and> \<not> isspace x)"
proof -
  from set_join[OF assms] have "x = 10 \<or> (\<exists>l\<in>set (lines_of s). x \<in> set l)" by simp
  then show ?thesis
  proof
    assume "x = 10" then show ?thesis by simp
  next
    assume "\<exists>l\<in>set (lines_of s). x \<in> set l"
    then obtain ln where ln: "ln \<in> set (split_on 10 s)" and x: "x \<in> set (norm_line ln)"
      by (auto simp add: lines_of_def)
    from norm_line_chars[OF x] show ?thesis
      using set_split_on[OF ln] by auto
  qed
qed

lemma canonicalize_lines:
  "canonicalize lower source =
     join [10] (lines_of (concat (map (\<lambda>ch. lower (asc7_map ch)) source)))"
  by (simp add: canonicalize_def canon_loop_filter lines_of_def)

lemma asc7_map_not_key:
  "asc7_map c \<notin> {0x201C, 0x201D, 0x2018, 0x2019, 0x2014, 0x2013}"
  by (simp add: asc7_map_def)

lemma asc7_map_id:
  "\<not> isspace x \<Longrightarrow> x \<notin> {0x201C, 0x201D, 0x2018, 0x2019, 0x2014, 0x2013} \<Longrightarrow> asc7_map x = x"
  by (auto simp add: asc7_map_def isspace_def)

text \<open>
  C8. Canonicalization is idempotent, for every lower-casing table with the three
  properties that the Unicode table of the runtime has: the characters it produces are
  their own lower case; it produces a curly quote or a dash only from that character
  itself; it leaves the space and the line feed alone.
\<close>

theorem canonicalize_idempotent:
  assumes fixed: "\<forall>c. \<forall>x\<in>set (lower c). lower x = [x]"
    and quotes: "\<forall>c. \<forall>x\<in>set (lower c).
        x \<in> {0x201C, 0x201D, 0x2018, 0x2019, 0x2014, 0x2013} \<longrightarrow> c = x"
    and seps: "lower 32 = [32] \<and> lower 10 = [10]"
  shows "canonicalize lower (canonicalize lower s) = canonicalize lower s"
proof -
  let ?cm = "\<lambda>t. concat (map (\<lambda>ch. lower (asc7_map ch)) t)"
  let ?r = "join [10] (lines_of (?cm s))"
  have one: "lower (asc7_map x) = [x]" if x: "x \<in> set ?r" for x
  proof -
    from lines_of_chars[OF x] consider "x = 10" | "x = 32" | "x \<in> set (?cm s)" "\<not> isspace x"
      by blast
    then show ?thesis
    proof cases
      case 1
      then show ?thesis using seps by (simp add: asc7_map_def)
    next
      case 2
      then show ?thesis using seps by (simp add: asc7_map_def)
    next
      case 3
      then obtain c where c: "x \<in> set (lower (asc7_map c))" by auto
      have lx: "lower x = [x]" using fixed c by blast
      have "x \<notin> {0x201C, 0x201D, 0x2018, 0x2019, 0x2014, 0x2013}"
      proof
        assume k: "x \<in> {0x201C, 0x201D, 0x2018, 0x2019, 0x2014, 0x2013}"
        then have "asc7_map c = x" using quotes c by blast
        then show False using k asc7_map_not_key[of c] by simp
      qed
      then have "asc7_map x = x" using 3(2) by (rule asc7_map_id[rotated])
      then show ?thesis using lx by simp
    qed
  qed
  have "?cm ?r = concat (map (\<lambda>x. [x]) ?r)"
    by (rule arg_cong[where f = concat], rule map_cong) (simp_all add: one)
  then have cm: "?cm ?r = ?r" by simp
  have "canonicalize lower (canonicalize lower s) = join [10] (lines_of (?cm ?r))"
    by (simp only: canonicalize_lines)
  also have "\<dots> = join [10] (lines_of ?r)" by (simp only: cm)
  also have "\<dots> = ?r" by (simp only: lines_of_join)
  finally show ?thesis by (simp only: canonicalize_lines)
qed


text \<open>The source text of the end-to-end example.\<close>

definition example_source :: str where
  "example_source = ascii
     ''psi :: f3^3\<newline>v :: { x in f3^3 : x1 = 0 }\<newline>grad\<newline>project\<newline>goal\<newline>''"

definition example_canon :: str where
  "example_canon = ascii
     ''psi :: f3^3\<newline>v :: { x in f3^3 : x1 = 0 }\<newline>grad\<newline>project\<newline>goal''"

lemmas canon_eval = canonicalize_def asc7_map_def ascii_lower_def ascii_def py_split.simps strip_def
  isspace_def startswith_def Let_def

lemma canonicalize_example: "canonicalize ascii_lower example_source = example_canon"
  by (simp add: canon_eval example_source_def example_canon_def)

lemma ascii_lower_fixed: "\<forall>c. \<forall>x\<in>set (ascii_lower c). ascii_lower x = [x]"
  by (auto simp add: ascii_lower_def)

lemma ascii_lower_quotes:
  "\<forall>c. \<forall>x\<in>set (ascii_lower c). x \<in> {0x201C, 0x201D, 0x2018, 0x2019, 0x2014, 0x2013} \<longrightarrow> c = x"
  by (auto simp add: ascii_lower_def)

lemma ascii_lower_seps: "ascii_lower 32 = [32] \<and> ascii_lower 10 = [10]"
  by (simp add: ascii_lower_def)

theorem canonicalize_idempotent_witness:
  "canonicalize ascii_lower (canonicalize ascii_lower example_source)
     = canonicalize ascii_lower example_source
   \<and> canonicalize ascii_lower example_source = example_canon"
  using canonicalize_idempotent[OF ascii_lower_fixed ascii_lower_quotes ascii_lower_seps, of example_source]
    canonicalize_example
  by simp

section \<open>Parser (parser.py)\<close>

text \<open>\<open>sub in s\<close> for strings: \<open>sub\<close> occurs in \<open>s\<close> as a contiguous substring.\<close>

fun contains :: "str \<Rightarrow> str \<Rightarrow> bool" where
  "contains sub [] = (sub = [])"
| "contains sub (c # cs) = (startswith (c # cs) sub \<or> contains sub cs)"

text \<open>
  \<open>int(s)\<close> and the class \<open>\\d\<close> of a regular expression accept every Unicode decimal
  digit. The table of the runtime that gives the value of a digit is the parameter
  \<open>dv\<close>. \<open>int\<close> strips whitespace, takes an optional sign, then digits with single
  underscores between them; anything else is a ValueError.
\<close>

fun int_digits :: "(nat \<Rightarrow> nat option) \<Rightarrow> nat \<Rightarrow> str \<Rightarrow> nat option" where
  "int_digits dv acc [] = Some acc"
| "int_digits dv acc (c # cs) =
     (if c = 95
      then (case cs of
              [] \<Rightarrow> None
            | d # ds \<Rightarrow> (case dv d of None \<Rightarrow> None | Some k \<Rightarrow> int_digits dv (10 * acc + k) ds))
      else (case dv c of None \<Rightarrow> None | Some k \<Rightarrow> int_digits dv (10 * acc + k) cs))"

definition py_int :: "(nat \<Rightarrow> nat option) \<Rightarrow> str \<Rightarrow> error + int" where
  "py_int dv s =
     (let t = strip s;
          neg = (case t of [] \<Rightarrow> False | c # r \<Rightarrow> c = 45);
          u = (case t of [] \<Rightarrow> [] | c # r \<Rightarrow> if c = 45 \<or> c = 43 then r else t)
      in case u of
           [] \<Rightarrow> Inl (ValueError (ascii ''invalid literal for int() with base 10''))
         | c # cs \<Rightarrow>
             (case dv c of
                None \<Rightarrow> Inl (ValueError (ascii ''invalid literal for int() with base 10''))
              | Some k \<Rightarrow>
                  (case int_digits dv k cs of
                     None \<Rightarrow> Inl (ValueError (ascii ''invalid literal for int() with base 10''))
                   | Some n \<Rightarrow> Inr (if neg then - int n else int n))))"

text \<open>
  The regular expression \<open>x\\s*(\\d+)\\s*=\\s*(-?\\d+)\<close>, matched at the start of a
  string; the result is the two groups. Whitespace, digits, \<open>=\<close> and \<open>-\<close> are disjoint
  classes, so the greedy match is the only one and nothing is gained by backtracking.
\<close>

definition val_re_match :: "(nat \<Rightarrow> nat option) \<Rightarrow> str \<Rightarrow> (str \<times> str) option" where
  "val_re_match dv s =
     (case s of
        [] \<Rightarrow> None
      | c # r \<Rightarrow>
          if c \<noteq> 120 then None
          else let r1 = dropWhile isspace r;
                   g1 = takeWhile (\<lambda>x. dv x \<noteq> None) r1;
                   r3 = dropWhile isspace (dropWhile (\<lambda>x. dv x \<noteq> None) r1)
               in if g1 = [] then None
                  else (case r3 of
                          [] \<Rightarrow> None
                        | e # r4 \<Rightarrow>
                            if e \<noteq> 61 then None
                            else let r5 = dropWhile isspace r4;
                                     sgn = (case r5 of [] \<Rightarrow> [] | m # r6 \<Rightarrow> if m = 45 then [45] else []);
                                     g2 = takeWhile (\<lambda>x. dv x \<noteq> None) (drop (length sgn) r5)
                                 in if g2 = [] then None else Some (g1, sgn @ g2)))"

text \<open>\<open>_val_re.search\<close>: the match at the leftmost position that has one.\<close>

fun val_re_search :: "(nat \<Rightarrow> nat option) \<Rightarrow> str \<Rightarrow> (str \<times> str) option" where
  "val_re_search dv [] = val_re_match dv []"
| "val_re_search dv (c # cs) =
     (case val_re_match dv (c # cs) of Some g \<Rightarrow> Some g | None \<Rightarrow> val_re_search dv cs)"

text \<open>Line 1: \<open><text> :: f<p>^<dim>\<close>.\<close>

definition parse_psi :: "(nat \<Rightarrow> nat option) \<Rightarrow> str \<Rightarrow> error + PsiDecl" where
  "parse_psi dv line1 =
     (let L1 = py_split line1 in
      if ascii ''::'' \<notin> set L1 then Inl (ValueError (ascii ''line 1 must contain ::''))
      else let layout = last L1 in
        if \<not> startswith layout (ascii ''f'')
        then Inl (ValueError (ascii ''expecting f<p>^<dim> in line 1''))
        else let after_f = drop 1 layout in
          if 94 \<notin> set after_f
          then Inl (ValueError (ascii ''expecting caret (^) in field spec, got '' @ [39] @ layout @ [39]))
          else let p_str = takeWhile (\<lambda>x. x \<noteq> 94) after_f;
                   dim_str = drop 1 (dropWhile (\<lambda>x. x \<noteq> 94) after_f)
               in case py_int dv p_str of
                    Inl e \<Rightarrow> Inl e
                  | Inr p \<Rightarrow>
                      (case py_int dv dim_str of
                         Inl e \<Rightarrow> Inl e
                       | Inr dim \<Rightarrow> Inr \<lparr>psi_p = p, psi_dim = dim\<rparr>))"

text \<open>
  Line 2: the text after the first \<open>:\<close>, up to its last \<open>}\<close> (all of it when it has
  none), is searched for \<open>x<k> = <c>\<close>.
\<close>

definition parse_val :: "(nat \<Rightarrow> nat option) \<Rightarrow> str \<Rightarrow> error + ValDecl" where
  "parse_val dv L2 =
     (if 58 \<notin> set L2 \<or> 125 \<notin> set L2
      then Inl (ValueError (ascii ''line 2 must define validator like { x in f3^3 : x1 = 0 }''))
      else let after = drop 1 (dropWhile (\<lambda>x. x \<noteq> 58) L2);
               constraint_region =
                 (if 125 \<in> set after then rev (drop 1 (dropWhile (\<lambda>x. x \<noteq> 125) (rev after)))
                  else after)
           in case val_re_search dv constraint_region of
                None \<Rightarrow> Inl (ValueError (ascii ''could not parse validator; expected pattern like x1 = 0''))
              | Some (g1, g2) \<Rightarrow>
                  (case py_int dv g1 of
                     Inl e \<Rightarrow> Inl e
                   | Inr k \<Rightarrow>
                       (case py_int dv g2 of
                          Inl e \<Rightarrow> Inl e
                        | Inr cval \<Rightarrow>
                            Inr \<lparr>val_kind = ascii ''x_eq_const'', val_args = [k - 1, cval]\<rparr>)))"

definition grad_step :: Step where
  "grad_step = \<lparr>step_op = ascii ''grad'', step_args = []\<rparr>"

definition project_step :: Step where
  "project_step = \<lparr>step_op = ascii ''project'', step_args = []\<rparr>"

definition goal_step :: Step where
  "goal_step = \<lparr>step_op = ascii ''goal'', step_args = [FloatV float_0_01, FloatV float_0_99]\<rparr>"

text \<open>
  The loop over \<open>lines[2:]\<close>, with the list \<open>steps\<close> built so far. The markers are
  nabla followed by \<open>l\<close> (U+2207, \<open>l\<close>) or \<open>grad\<close>; \<open>p_v\<close>; the turnstile (U+22A2) or
  \<open>vdash\<close>. \<open>ln.lower()\<close> on a whole string is the parameter \<open>lw\<close>.
\<close>

fun steps_loop :: "(str \<Rightarrow> str) \<Rightarrow> str list \<Rightarrow> Step list \<Rightarrow> Step list" where
  "steps_loop lw [] steps = steps"
| "steps_loop lw (ln # rest) steps =
     (let l = lw ln in
      if contains [0x2207, 108] l \<or> contains (ascii ''grad'') l
      then steps_loop lw rest (steps @ [grad_step])
      else if contains (ascii ''p_v'') l
      then steps_loop lw rest (steps @ [project_step])
      else if contains [0x22A2] l \<or> contains (ascii ''vdash'') l
      then steps_loop lw rest (steps @ [goal_step])
      else steps_loop lw rest steps)"

definition parse_minimal :: "(nat \<Rightarrow> nat option) \<Rightarrow> (str \<Rightarrow> str) \<Rightarrow> str \<Rightarrow> error + Program" where
  "parse_minimal dv lw canon_text =
     (let lines = filter (\<lambda>ln. ln \<noteq> []) (split_on 10 canon_text) in
      if length lines < 2 then Inl (ValueError (ascii ''program too short''))
      else case parse_psi dv (lines ! 0) of
             Inl e \<Rightarrow> Inl e
           | Inr psi \<Rightarrow>
               (case parse_val dv (lines ! 1) of
                  Inl e \<Rightarrow> Inl e
                | Inr val \<Rightarrow>
                    Inr \<lparr>prog_psi = psi, prog_val = val,
                         prog_steps = steps_loop lw (drop 2 lines) []\<rparr>))"

text \<open>The two tables of the runtime, cut down to ASCII.\<close>

definition ascii_digit :: "nat \<Rightarrow> nat option" where
  "ascii_digit c = (if 48 \<le> c \<and> c \<le> 57 then Some (c - 48) else None)"

definition ascii_lower_str :: "str \<Rightarrow> str" where
  "ascii_lower_str s = concat (map ascii_lower s)"

lemmas parse_eval = parse_minimal_def parse_psi_def parse_val_def py_int_def val_re_match_def
  ascii_digit_def ascii_lower_str_def ascii_lower_def ascii_def py_split.simps strip_def
  isspace_def startswith_def Let_def grad_step_def project_step_def goal_step_def

lemma parse_example0:
  "parse_minimal ascii_digit ascii_lower_str example_canon =
     Inr \<lparr>prog_psi = \<lparr>psi_p = 3, psi_dim = 3\<rparr>,
          prog_val = \<lparr>val_kind = ascii ''x_eq_const'', val_args = [0, 0]\<rparr>,
          prog_steps = [grad_step]\<rparr>"
  by (simp add: parse_eval example_canon_def)


lemma steps_loop_per:
  "\<exists>per. steps_loop lw lns steps = steps @ concat per
     \<and> list_all2 (\<lambda>ln ss. length ss \<le> 1
          \<and> ss = (if contains [0x2207, 108] (lw ln) \<or> contains (ascii ''grad'') (lw ln) then [grad_step]
                  else if contains (ascii ''p_v'') (lw ln) then [project_step]
                  else if contains [0x22A2] (lw ln) \<or> contains (ascii ''vdash'') (lw ln) then [goal_step]
                  else [])) lns per"
proof (induction lns arbitrary: steps)
  case Nil
  then show ?case by simp
next
  case (Cons ln lns)
  let ?ss = "if contains [0x2207, 108] (lw ln) \<or> contains (ascii ''grad'') (lw ln) then [grad_step]
                  else if contains (ascii ''p_v'') (lw ln) then [project_step]
                  else if contains [0x22A2] (lw ln) \<or> contains (ascii ''vdash'') (lw ln) then [goal_step]
                  else []"
  have step: "steps_loop lw (ln # lns) steps = steps_loop lw lns (steps @ ?ss)"
    by (simp add: Let_def)
  from Cons[of "steps @ ?ss"] obtain per where
    p: "steps_loop lw lns (steps @ ?ss) = (steps @ ?ss) @ concat per"
    and q: "list_all2 (\<lambda>ln ss. length ss \<le> 1
          \<and> ss = (if contains [0x2207, 108] (lw ln) \<or> contains (ascii ''grad'') (lw ln) then [grad_step]
                  else if contains (ascii ''p_v'') (lw ln) then [project_step]
                  else if contains [0x22A2] (lw ln) \<or> contains (ascii ''vdash'') (lw ln) then [goal_step]
                  else [])) lns per"
    by blast
  have "steps_loop lw (ln # lns) steps = steps @ concat (?ss # per)"
    using step p by simp
  moreover have "list_all2 (\<lambda>ln ss. length ss \<le> 1
          \<and> ss = (if contains [0x2207, 108] (lw ln) \<or> contains (ascii ''grad'') (lw ln) then [grad_step]
                  else if contains (ascii ''p_v'') (lw ln) then [project_step]
                  else if contains [0x22A2] (lw ln) \<or> contains (ascii ''vdash'') (lw ln) then [goal_step]
                  else [])) (ln # lns) (?ss # per)"
    using q by simp
  ultimately show ?case by blast
qed

lemma lines_of_joined:
  assumes "\<forall>ln\<in>set ls. 10 \<notin> set ln"
  shows "filter (\<lambda>ln. ln \<noteq> []) (split_on 10 (join [10] ls)) = filter (\<lambda>ln. ln \<noteq> []) ls"
proof (cases "ls = []")
  case True
  then show ?thesis by simp
next
  case False
  then show ?thesis using split_on_join[OF False assms] by simp
qed

lemma nth_filter_nonempty:
  "k < length (filter (\<lambda>ln. ln \<noteq> []) xs) \<Longrightarrow> filter (\<lambda>ln. ln \<noteq> []) xs ! k \<noteq> ([] :: str)"
proof -
  assume "k < length (filter (\<lambda>ln. ln \<noteq> []) xs)"
  then have "filter (\<lambda>ln. ln \<noteq> []) xs ! k \<in> set (filter (\<lambda>ln. ln \<noteq> []) xs)"
    by (rule nth_mem)
  then show ?thesis by simp
qed

lemma split_on_no_sep: "l \<in> set (split_on c s) \<Longrightarrow> c \<notin> set l"
proof (induction s arbitrary: l)
  case Nil
  then show ?case by simp
next
  case (Cons a s)
  obtain w ws where sp: "split_on c s = w # ws"
    using split_on_nonempty[of c s] by (cases "split_on c s") auto
  show ?case
  proof (cases "a = c")
    case True
    then show ?thesis using Cons by auto
  next
    case False
    then have "l = a # w \<or> l \<in> set ws" using Cons.prems sp by simp
    then show ?thesis using Cons.IH[of w] Cons.IH[of l] sp False by auto
  qed
qed

text \<open>
  C10. When \<open>parse_minimal\<close> returns a program, its steps are the concatenation of one
  list per line after the second, each of at most one step, chosen by precedence:
  a gradient marker gives \<open>grad\<close>; otherwise a projection marker gives \<open>project\<close>;
  otherwise a turnstile marker gives \<open>goal\<close>; otherwise the line gives nothing. No
  line after the second can raise an error: with the same first two lines and any
  other lines after them, \<open>parse_minimal\<close> returns a program again.
\<close>

theorem parse_minimal_steps:
  assumes "parse_minimal dv lw text = Inr prog"
  shows "(\<exists>per. prog_steps prog = concat per
          \<and> list_all2 (\<lambda>ln ss. length ss \<le> 1
               \<and> ss = (if contains [0x2207, 108] (lw ln) \<or> contains (ascii ''grad'') (lw ln)
                       then [grad_step]
                       else if contains (ascii ''p_v'') (lw ln) then [project_step]
                       else if contains [0x22A2] (lw ln) \<or> contains (ascii ''vdash'') (lw ln)
                       then [goal_step]
                       else []))
               (drop 2 (filter (\<lambda>ln. ln \<noteq> []) (split_on 10 text))) per)
       \<and> (\<forall>rest. (\<forall>ln\<in>set rest. 10 \<notin> set ln) \<longrightarrow>
             (\<exists>prog'. parse_minimal dv lw
                 (join [10] (take 2 (filter (\<lambda>ln. ln \<noteq> []) (split_on 10 text)) @ rest)) = Inr prog'
                \<and> prog_psi prog' = prog_psi prog \<and> prog_val prog' = prog_val prog))"
proof -
  let ?lines = "filter (\<lambda>ln. ln \<noteq> []) (split_on 10 text)"
  from assms have len: "\<not> length ?lines < 2"
    unfolding parse_minimal_def by (auto simp add: Let_def split: if_splits)
  from assms len obtain psi val where
    psi: "parse_psi dv (?lines ! 0) = Inr psi" and val: "parse_val dv (?lines ! 1) = Inr val"
    and prog: "prog = \<lparr>prog_psi = psi, prog_val = val, prog_steps = steps_loop lw (drop 2 ?lines) []\<rparr>"
    unfolding parse_minimal_def by (auto simp add: Let_def split: sum.splits)
  have first: "\<exists>per. prog_steps prog = concat per
          \<and> list_all2 (\<lambda>ln ss. length ss \<le> 1
               \<and> ss = (if contains [0x2207, 108] (lw ln) \<or> contains (ascii ''grad'') (lw ln)
                       then [grad_step]
                       else if contains (ascii ''p_v'') (lw ln) then [project_step]
                       else if contains [0x22A2] (lw ln) \<or> contains (ascii ''vdash'') (lw ln)
                       then [goal_step]
                       else [])) (drop 2 ?lines) per"
    using steps_loop_per[of lw "drop 2 ?lines" "[]"] by (simp add: prog)
  have second: "\<exists>prog'. parse_minimal dv lw (join [10] (take 2 ?lines @ rest)) = Inr prog'
                \<and> prog_psi prog' = prog_psi prog \<and> prog_val prog' = prog_val prog"
    if clean: "\<forall>ln\<in>set rest. 10 \<notin> set ln" for rest
  proof -
    have "\<forall>ln\<in>set ?lines. 10 \<notin> set ln"
      by (auto simp add: split_on_no_sep)
    then have "\<forall>ln\<in>set (take 2 ?lines). 10 \<notin> set ln"
      by (auto dest!: in_set_takeD)
    then have nl: "\<forall>ln\<in>set (take 2 ?lines @ rest). 10 \<notin> set ln"
      using clean by auto
    have t2: "take 2 ?lines = [?lines ! 0, ?lines ! 1]"
      using len by (cases ?lines; cases "tl ?lines") (auto simp add: numeral_2_eq_2)
    have i0: "0 < length ?lines" and i1: "1 < length ?lines" using len by linarith+
    have ne: "?lines ! 0 \<noteq> []" "?lines ! 1 \<noteq> []"
      using nth_filter_nonempty[OF i0] nth_filter_nonempty[OF i1] by blast+
    have l': "filter (\<lambda>ln. ln \<noteq> []) (split_on 10 (join [10] (take 2 ?lines @ rest)))
        = [?lines ! 0, ?lines ! 1] @ filter (\<lambda>ln. ln \<noteq> []) rest"
      unfolding lines_of_joined[OF nl] using ne by (simp add: t2)
    show ?thesis
      unfolding parse_minimal_def l' using psi val by (simp add: prog)
  qed
  show ?thesis using first second by blast
qed

definition example_program :: Program where
  "example_program =
     \<lparr>prog_psi = \<lparr>psi_p = 3, psi_dim = 3\<rparr>,
      prog_val = \<lparr>val_kind = ascii ''x_eq_const'', val_args = [0, 0]\<rparr>,
      prog_steps = [grad_step]\<rparr>"

theorem parse_minimal_steps_witness:
  "parse_minimal ascii_digit ascii_lower_str example_canon = Inr example_program
   \<and> (\<exists>per. prog_steps example_program = concat per \<and> length per = 3)"
proof -
  have e: "parse_minimal ascii_digit ascii_lower_str example_canon = Inr example_program"
    using parse_example0 by (simp add: example_program_def)
  have n: "length (drop 2 (filter (\<lambda>ln. ln \<noteq> []) (split_on 10 example_canon))) = 3"
    by (simp add: example_canon_def ascii_def)
  from parse_minimal_steps[OF e] obtain per where
    "prog_steps example_program = concat per"
    and "list_all2 (\<lambda>ln ss. length ss \<le> 1
               \<and> ss = (if contains [0x2207, 108] (ascii_lower_str ln) \<or> contains (ascii ''grad'') (ascii_lower_str ln)
                       then [grad_step]
                       else if contains (ascii ''p_v'') (ascii_lower_str ln) then [project_step]
                       else if contains [0x22A2] (ascii_lower_str ln) \<or> contains (ascii ''vdash'') (ascii_lower_str ln)
                       then [goal_step]
                       else []))
               (drop 2 (filter (\<lambda>ln. ln \<noteq> []) (split_on 10 example_canon))) per"
    by blast
  then have "prog_steps example_program = concat per \<and> length per = 3"
    using n by (auto dest: list_all2_lengthD)
  with e show ?thesis by blast
qed

section \<open>The end-to-end example\<close>

text \<open>
  The instructions that the example compiles to: only its line \<open>grad\<close> has a marker,
  so there is one step.
\<close>

definition example_bytecode :: "Instr list" where
  "example_bytecode =
     [(instr OP_INIT)\<lparr>ins_i := 3\<rparr>, (instr OP_INIT)\<lparr>ins_b := IntV 3\<rparr>, instr OP_SEED,
      (instr OP_VMASK)\<lparr>ins_i := 511\<rparr>, grad_instr]"

definition example_listing :: "str list" where
  "example_listing =
     [ascii ''00: INIT p=3'', ascii ''01: INIT dim=3'', ascii ''02: SEED'',
      ascii ''03: VMASK nbits=9 hex=0x1ff...'', ascii ''04: GRAD eta=0.1'']"

lemma compile_example: "compile_to_ir example_program = Inr example_bytecode"
  by (simp add: compile_to_ir_def example_program_def example_bytecode_def build_mask_f3_x1
      compile_step_def grad_step_def grad_instr_def ascii_def)

lemma asm_lines_example: "asm_lines sample_float_repr example_bytecode = Inr example_listing"
  by (simp add: asm_lines_def asm_line_def example_bytecode_def example_listing_def instr_def
      grad_instr_def OP_INIT_def OP_SEED_def OP_VMASK_def OP_GRAD_def OP_PROJ_def OP_METRICS_def
      OP_HALT_def mnemonic_def pad2_def str_nat.simps str_int_def hex_def hex_nat.simps hex_digit_def
      bit_length_def bit_length_nat.simps float_gt0_def float_is_nan_def float_0_0_def float_0_1_def
      float_1_0_def sample_float_repr_def ascii_def)

lemma asm_loop_lines:
  "asm_loop frepr k bc out = Inr out' \<Longrightarrow>
     \<exists>ls. out' = out @ ls \<and> length ls = length bc
        \<and> (\<forall>j<length bc. asm_line frepr (k + j) (bc ! j) = Inr (ls ! j))"
proof (induction bc arbitrary: k out)
  case Nil
  then show ?case by simp
next
  case (Cons ins bc)
  from Cons.prems obtain l where l: "asm_line frepr k ins = Inr l"
    and r: "asm_loop frepr (k + 1) bc (out @ [l]) = Inr out'"
    by (auto split: sum.splits)
  from Cons.IH[OF r] obtain ls where
    o: "out' = (out @ [l]) @ ls" and n: "length ls = length bc"
    and a: "\<forall>j<length bc. asm_line frepr (k + 1 + j) (bc ! j) = Inr (ls ! j)"
    by blast
  have "\<forall>j<length (ins # bc). asm_line frepr (k + j) ((ins # bc) ! j) = Inr ((l # ls) ! j)"
  proof (intro allI impI)
    fix j assume "j < length (ins # bc)"
    then show "asm_line frepr (k + j) ((ins # bc) ! j) = Inr ((l # ls) ! j)"
      using l a by (cases j) simp_all
  qed
  then show ?case using o n by (intro exI[of _ "l # ls"]) simp
qed

lemma asm_line_prefix:
  "asm_line frepr k ins = Inr l \<Longrightarrow> startswith l (pad2 k @ ascii '': '')"
  by (auto simp add: asm_line_def startswith_def ascii_def split: if_splits sum.splits)

lemma str_nat_small: "k < 10 \<Longrightarrow> str_nat k = [48 + k]"
  by (subst str_nat.simps) simp

lemma pad2_two_digits: "k < 100 \<Longrightarrow> pad2 k = [48 + k div 10, 48 + k mod 10]"
proof (cases "k < 10")
  case True
  then show ?thesis by (simp add: pad2_def str_nat_small numeral_2_eq_2)
next
  case False
  assume "k < 100"
  then have "k div 10 < 10" by simp
  then have "str_nat k = [48 + k div 10, 48 + k mod 10]"
    using False by (subst str_nat.simps) (simp add: str_nat_small)
  then show ?thesis by (simp add: pad2_def)
qed


lemma parse_canon_example:
  "parse_minimal ascii_digit ascii_lower_str (canonicalize ascii_lower example_source) = Inr example_program"
  using parse_example0 by (simp add: canonicalize_example example_program_def)

text \<open>
  The listing of the example as \<open>to_assembly\<close> returns it: the entries are joined by
  the two characters backslash and \<open>n\<close>, and the string has no line feed in it.
\<close>

lemma to_assembly_example:
  "to_assembly sample_float_repr example_bytecode = Inr (join [92, 110] example_listing)
   \<and> 10 \<notin> set (join [92, 110] example_listing)"
  by (simp add: to_assembly_def asm_lines_example) (simp add: example_listing_def ascii_def)

text \<open>
  C3, as the code has it. Whenever the assembler's text form is built, it is made of one
  entry per instruction, joined by a separator, and the entry of instruction \<open>k\<close> begins
  with \<open>k\<close> in decimal, padded with zeros to two digits, then a colon and a space. The
  end-to-end example compiles to 5 instructions (\<open>INIT\<close>, \<open>INIT\<close>, \<open>SEED\<close>, \<open>VMASK\<close>,
  \<open>GRAD\<close>), since its lines \<open>project\<close> and \<open>goal\<close> hold no marker, and its listing has
  5 entries.
\<close>

theorem to_assembly_entries:
  assumes "asm_lines frepr bc = Inr out"
  shows "length out = length bc
       \<and> (\<exists>sep. to_assembly frepr bc = Inr (join sep out))
       \<and> (\<forall>k<length bc. startswith (out ! k) (pad2 k @ ascii '': '')
             \<and> (k < 100 \<longrightarrow> pad2 k = [48 + k div 10, 48 + k mod 10]))
       \<and> parse_minimal ascii_digit ascii_lower_str (canonicalize ascii_lower example_source)
             = Inr example_program
       \<and> compile_to_ir example_program = Inr example_bytecode
       \<and> length example_bytecode = 5
       \<and> asm_lines sample_float_repr example_bytecode = Inr example_listing
       \<and> length example_listing = 5"
proof -
  from asm_loop_lines[OF assms[unfolded asm_lines_def]] obtain ls where
    o: "out = ls" and n: "length ls = length bc"
    and a: "\<forall>j<length bc. asm_line frepr (0 + j) (bc ! j) = Inr (ls ! j)"
    by auto
  have p: "\<forall>k<length bc. startswith (out ! k) (pad2 k @ ascii '': '')
             \<and> (k < 100 \<longrightarrow> pad2 k = [48 + k div 10, 48 + k mod 10])"
    using a o by (auto intro: asm_line_prefix pad2_two_digits)
  have j: "\<exists>sep. to_assembly frepr bc = Inr (join sep out)"
    using assms by (auto simp add: to_assembly_def)
  show ?thesis
    using o n p j parse_canon_example compile_example asm_lines_example
    by (simp add: example_bytecode_def example_listing_def)
qed

theorem to_assembly_entries_witness:
  "asm_lines sample_float_repr example_bytecode = Inr example_listing
   \<and> length example_listing = length example_bytecode
   \<and> startswith (example_listing ! 4) (pad2 4 @ ascii '': '')"
proof -
  from to_assembly_entries[OF asm_lines_example]
  have l: "length example_listing = length example_bytecode"
    and p: "\<forall>k<length example_bytecode. startswith (example_listing ! k) (pad2 k @ ascii '': '')
             \<and> (k < 100 \<longrightarrow> pad2 k = [48 + k div 10, 48 + k mod 10])"
    by blast+
  have "4 < length example_bytecode" by (simp add: example_bytecode_def)
  with p have "startswith (example_listing ! 4) (pad2 4 @ ascii '': '')" by blast
  with l asm_lines_example show ?thesis by blast
qed

text \<open>
  C3 as stated fails on the example: its compilation yields 5 instructions, not 8.
\<close>

theorem example_compiles_to_5_instructions:
  "parse_minimal ascii_digit ascii_lower_str (canonicalize ascii_lower example_source)
     = Inr example_program
   \<and> compile_to_ir example_program = Inr example_bytecode
   \<and> length example_bytecode = 5
   \<and> length example_bytecode \<noteq> 8"
  using parse_canon_example compile_example by (simp add: example_bytecode_def)

section \<open>Variant B: from Python source to nodes and back (collapse\_pack.py, collapse\_unpack.py)\<close>

text \<open>
  The part of Python's \<open>ast\<close> that \<open>PyToZ\<close> looks at. An integer constant is \<open>CInt\<close>
  and any other constant (string, float, \<open>None\<close>, ...) is \<open>COther\<close>; Boolean constants,
  which are integers to \<open>isinstance\<close>, are not part of this model. \<open>OtherExpr\<close> is an
  expression node of any other class, with its child expressions; \<open>OtherStmt\<close> a statement
  of any other class. The keywords of a call are not visited by \<open>visit_Call\<close> and are
  left out.
\<close>

datatype pyconst = CInt int | COther

datatype binop = Add | Mult | Sub | Div | FloorDiv | Mod | Pow | OtherOp

datatype pyexpr =
    Constant pyconst
  | Name str
  | BinOp pyexpr binop pyexpr
  | Call pyexpr "pyexpr list"
  | OtherExpr "pyexpr list"

datatype pystmt =
    Expr pyexpr
  | Assign "pyexpr list" pyexpr
  | OtherStmt

text \<open>
  A visit returns a node or \<open>None\<close> (from \<open>generic_visit\<close>). The constructor of \<open>ZNode\<close>
  calls \<open>to_canon\<close> on every child, which raises AttributeError on \<open>None\<close>.
\<close>

definition mk_node :: "ZOp \<Rightarrow> ZNode option list \<Rightarrow> (str \<times> val) list \<Rightarrow> error + ZNode" where
  "mk_node opr zs m =
     (if None \<in> set zs then Inl AttributeError else Inr (ZNode opr (map the zs) m))"

text \<open>The dictionary of \<open>visit_BinOp\<close> for the operators other than \<open>+\<close> and \<open>*\<close>.\<close>

fun binop_name :: "binop \<Rightarrow> str option" where
  "binop_name Sub = Some (ascii ''sub'')"
| "binop_name Div = Some (ascii ''div'')"
| "binop_name FloorDiv = Some (ascii ''floordiv'')"
| "binop_name Mod = Some (ascii ''mod'')"
| "binop_name Pow = Some (ascii ''pow'')"
| "binop_name _ = None"

text \<open>
  \<open>PyToZ.visit\<close> on an expression. \<open>visit_call_args out args\<close> is the loop of
  \<open>visit_Call\<close> over the remaining arguments; \<open>visit_children\<close> is \<open>generic_visit\<close>.
\<close>

fun visit :: "pyexpr \<Rightarrow> error + ZNode option"
  and visit_call_args :: "ZNode \<Rightarrow> pyexpr list \<Rightarrow> error + ZNode"
  and visit_children :: "pyexpr list \<Rightarrow> error + unit"
  where
  "visit (Constant (CInt k)) = Inr (Some (ZNode ZINT [] [(ascii ''value'', VInt k)]))"
| "visit (Constant COther) = Inl (SyntaxError (ascii ''const''))"
| "visit (Name x) = Inr (Some (ZNode ZVAR [] [(ascii ''name'', VStr x)]))"
| "visit (BinOp l opr r) =
     (case visit l of Inl e \<Rightarrow> Inl e | Inr L \<Rightarrow>
     (case visit r of Inl e \<Rightarrow> Inl e | Inr R \<Rightarrow>
        if opr = Add then map_sum id Some (mk_node ZADD [L, R] [])
        else if opr = Mult then map_sum id Some (mk_node ZMUL [L, R] [])
        else (case binop_name opr of
                None \<Rightarrow> Inl KeyError
              | Some nm \<Rightarrow>
                  (case mk_node ZAPPLY [Some (ZNode ZVAR [] [(ascii ''name'', VStr nm)]), L] [] of
                     Inl e \<Rightarrow> Inl e
                   | Inr inner \<Rightarrow> map_sum id Some (mk_node ZAPPLY [Some inner, R] [])))))"
| "visit (Call func as) =
     (case func of
        Name fid \<Rightarrow> map_sum id Some (visit_call_args (ZNode ZVAR [] [(ascii ''name'', VStr fid)]) as)
      | _ \<Rightarrow> Inl (SyntaxError (ascii ''call'')))"
| "visit (OtherExpr cs) = (case visit_children cs of Inl e \<Rightarrow> Inl e | Inr _ \<Rightarrow> Inr None)"
| "visit_call_args out [] = Inr out"
| "visit_call_args out (a # as) =
     (case visit a of Inl e \<Rightarrow> Inl e | Inr z \<Rightarrow>
     (case mk_node ZAPPLY [Some out, z] [] of
        Inl e \<Rightarrow> Inl e
      | Inr out' \<Rightarrow> visit_call_args out' as))"
| "visit_children [] = Inr ()"
| "visit_children (c # cs) = (case visit c of Inl e \<Rightarrow> Inl e | Inr _ \<Rightarrow> visit_children cs)"

definition name_of :: "pyexpr \<Rightarrow> error + str" where
  "name_of t = (case t of Name x \<Rightarrow> Inr x
                | _ \<Rightarrow> Inl (SyntaxError (ascii ''only simple names supported in assignment'')))"

text \<open>
  The loop of \<open>visit_Module\<close> over \<open>reversed(node.body[:-1])\<close>: a single-target
  assignment wraps \<open>z\<close> in a \<open>LET\<close>, every other statement is skipped.
\<close>

fun wrap_assigns :: "pystmt list \<Rightarrow> ZNode option \<Rightarrow> error + ZNode option" where
  "wrap_assigns [] z = Inr z"
| "wrap_assigns (Assign [t] v # sts) z =
     (case name_of t of Inl e \<Rightarrow> Inl e | Inr nm \<Rightarrow>
     (case visit v of Inl e \<Rightarrow> Inl e | Inr val \<Rightarrow>
     (case mk_node ZLET [val, z] [(ascii ''name'', VStr nm)] of
        Inl e \<Rightarrow> Inl e
      | Inr z' \<Rightarrow> wrap_assigns sts (Some z'))))"
| "wrap_assigns (_ # sts) z = wrap_assigns sts z"

definition visit_Module :: "pystmt list \<Rightarrow> error + ZNode option" where
  "visit_Module body =
     (if body = [] then Inl (SyntaxError (ascii ''empty module''))
      else case (case last body of
                   Expr e \<Rightarrow> visit e
                 | Assign [t] v \<Rightarrow>
                     (case name_of t of Inl e \<Rightarrow> Inl e | Inr nm \<Rightarrow>
                     (case visit v of Inl e \<Rightarrow> Inl e | Inr val \<Rightarrow>
                        map_sum id Some
                          (mk_node ZLET [val, Some (ZNode ZVAR [] [(ascii ''name'', VStr nm)])]
                             [(ascii ''name'', VStr nm)])))
                 | _ \<Rightarrow> Inl (SyntaxError (ascii ''last stmt must be expr or single assignment'')))
           of Inl e \<Rightarrow> Inl e
            | Inr z \<Rightarrow> wrap_assigns (rev (butlast body)) z)"

text \<open>
  \<open>str(x)\<close>, also what an f-string puts in for \<open>x\<close>. A callable cannot be in a node's
  metadata, which the constructor serializes as JSON.
\<close>

fun val_str :: "val \<Rightarrow> str" where
  "val_str VNone = ascii ''None''"
| "val_str (VInt k) = str_int k"
| "val_str (VStr s) = s"
| "val_str (VFun k) = ascii ''<function>''"

text \<open>
  The local function \<open>t\<close> of \<open>z_to_py\<close>, with the list \<open>assigns\<close> passed through. It
  returns a string, except for a variable, where it returns the metadata value
  \<open>n.meta["name"]\<close> as it is.
\<close>

fun t_render :: "ZNode \<Rightarrow> str list \<Rightarrow> error + (val \<times> str list)" where
  "t_render (ZNode ZINT zs m) assigns =
     (case map_of m (ascii ''value'') of
        None \<Rightarrow> Inl KeyError
      | Some v \<Rightarrow> Inr (VStr (val_str v), assigns))"
| "t_render (ZNode ZVAR zs m) assigns =
     (case map_of m (ascii ''name'') of None \<Rightarrow> Inl KeyError | Some v \<Rightarrow> Inr (v, assigns))"
| "t_render (ZNode ZADD zs m) assigns =
     (case zs of [] \<Rightarrow> Inl IndexError | l # rest \<Rightarrow>
     (case t_render l assigns of Inl e \<Rightarrow> Inl e | Inr (x, as1) \<Rightarrow>
     (case rest of [] \<Rightarrow> Inl IndexError | r # _ \<Rightarrow>
     (case t_render r as1 of Inl e \<Rightarrow> Inl e | Inr (y, as2) \<Rightarrow>
        Inr (VStr (ascii ''('' @ val_str x @ ascii '' + '' @ val_str y @ ascii '')''), as2)))))"
| "t_render (ZNode ZMUL zs m) assigns =
     (case zs of [] \<Rightarrow> Inl IndexError | l # rest \<Rightarrow>
     (case t_render l assigns of Inl e \<Rightarrow> Inl e | Inr (x, as1) \<Rightarrow>
     (case rest of [] \<Rightarrow> Inl IndexError | r # _ \<Rightarrow>
     (case t_render r as1 of Inl e \<Rightarrow> Inl e | Inr (y, as2) \<Rightarrow>
        Inr (VStr (ascii ''('' @ val_str x @ ascii '' * '' @ val_str y @ ascii '')''), as2)))))"
| "t_render (ZNode ZAPPLY zs m) assigns =
     (case zs of [] \<Rightarrow> Inl IndexError | l # rest \<Rightarrow>
     (case t_render l assigns of Inl e \<Rightarrow> Inl e | Inr (x, as1) \<Rightarrow>
     (case rest of [] \<Rightarrow> Inl IndexError | r # _ \<Rightarrow>
     (case t_render r as1 of Inl e \<Rightarrow> Inl e | Inr (y, as2) \<Rightarrow>
        Inr (VStr (val_str x @ ascii ''('' @ val_str y @ ascii '')''), as2)))))"
| "t_render (ZNode ZLET zs m) assigns =
     (case map_of m (ascii ''name'') of None \<Rightarrow> Inl KeyError | Some name \<Rightarrow>
     (case zs of [] \<Rightarrow> Inl IndexError | v # rest \<Rightarrow>
     (case t_render v assigns of Inl e \<Rightarrow> Inl e | Inr (x, as1) \<Rightarrow>
     (case rest of [] \<Rightarrow> Inl IndexError | body # _ \<Rightarrow>
        t_render body (as1 @ [val_str name @ ascii '' = '' @ val_str x])))))"

definition z_to_py :: "ZNode \<Rightarrow> error + (str list \<times> val)" where
  "z_to_py z = (case t_render z [] of Inl e \<Rightarrow> Inl e | Inr (final, assigns) \<Rightarrow> Inr (assigns, final))"

text \<open>
  The module \<open>y = n\<close>, \<open>y = 1\<close>, \<open>0\<close>: two bindings of the same name, then an
  expression. The environment \<open>{"n": None}\<close>.
\<close>

definition rebind_module :: "pystmt list" where
  "rebind_module =
     [Assign [Name (ascii ''y'')] (Name (ascii ''n'')),
      Assign [Name (ascii ''y'')] (Constant (CInt 1)),
      Expr (Constant (CInt 0))]"

definition rebind_ast :: ZNode where
  "rebind_ast =
     let_node (ascii ''y'') (var_node (ascii ''n''))
       (let_node (ascii ''y'') (int_node 1) (int_node 0))"

definition env_n_none :: env where
  "env_n_none = [VStr (ascii ''n'') \<mapsto> VNone]"

text \<open>
  C2. The text that unpacking gives for this module is the lines \<open>y = n\<close>, \<open>y = 1\<close> and
  the expression \<open>0\<close>, which evaluates to 0 in any environment that binds \<open>n\<close>. The
  evaluator raises KeyError on the node in the environment \<open>{"n": None}\<close>: the inner
  \<open>let\<close> finds \<open>y\<close> bound to \<open>None\<close>, takes it for absent and deletes it, and the outer
  \<open>let\<close> then deletes \<open>y\<close> again.
\<close>

theorem hoisted_rebinding_diverges:
  "visit_Module rebind_module = Inr (Some rebind_ast)
   \<and> z_to_py rebind_ast = Inr ([ascii ''y = n'', ascii ''y = 1''], VStr (ascii ''0''))
   \<and> fst (eval std_call rebind_ast env_n_none) = Inl KeyError
   \<and> snd (eval std_call rebind_ast env_n_none) = env_n_none"
  by (simp add: visit_Module_def rebind_module_def rebind_ast_def name_of_def mk_node_def
      let_node_def var_node_def int_node_def z_to_py_def env_n_none_def str_int_def
      str_nat.simps ascii_def)

section \<open>Container codec\<close>

text \<open>
  The filesystem is a map from paths to file contents, and a path is the string it is
  written as. Reading a path that is not there raises FileNotFoundError; other
  failures of the operating system are outside the model. \<open>zlib\<close>, the UTF-8 codec and
  the JSON reader are the runtime's; they are parameters of the functions below.
\<close>

type_synonym path = str
type_synonym filesystem = "path \<rightharpoonup> byte list"

definition read_bytes :: "filesystem \<Rightarrow> path \<Rightarrow> error + byte list" where
  "read_bytes fs p = (case fs p of None \<Rightarrow> Inl FileNotFoundError | Some b \<Rightarrow> Inr b)"

text \<open>A bytes literal of ASCII characters.\<close>

definition bytes_of :: "string \<Rightarrow> byte list" where
  "bytes_of s = map (\<lambda>c. of_nat (of_char c)) s"

text \<open>\<open>p.name\<close>: the final component of a path.\<close>

definition path_name :: "path \<Rightarrow> str" where
  "path_name p = rev (takeWhile (\<lambda>c. c \<noteq> 47) (rev p))"

text \<open>
  \<open>p.suffix\<close>: the part of the name from its last dot, when that dot is neither the first
  nor the last character of the name.
\<close>

definition path_suffix :: "path \<Rightarrow> str" where
  "path_suffix p =
     (let name = path_name p; tail = rev (takeWhile (\<lambda>c. c \<noteq> 46) (rev name))
      in if 46 \<in> set name \<and> tail \<noteq> [] \<and> length tail + 1 < length name then 46 # tail else [])"

text \<open>
  \<open>p.with_suffix(s)\<close> for a suffix \<open>s\<close> that starts with a dot: the old suffix is
  replaced; a path with an empty name raises ValueError.
\<close>

definition with_suffix :: "path \<Rightarrow> str \<Rightarrow> error + path" where
  "with_suffix p s =
     (if path_name p = [] then Inl (ValueError (ascii ''has an empty name''))
      else Inr (take (length p - length (path_suffix p)) p @ s))"



subsection \<open>Variant A (csl\_any\_collapse.py)\<close>





subsection \<open>Variant B (collapse\_unpack.py)\<close>

definition MAGIC :: "byte list" where
  "MAGIC = bytes_of ''CSLX''"

text \<open>
  The environment of the optional evaluation: \<open>add1\<close> and \<open>double\<close> of mini\_cc.py and the
  five curried operators, as callables 0 to 6.
\<close>

definition unpack_env :: env where
  "unpack_env =
     [VStr (ascii ''add1'') \<mapsto> VFun 0, VStr (ascii ''double'') \<mapsto> VFun 1,
      VStr (ascii ''sub'') \<mapsto> VFun 2, VStr (ascii ''div'') \<mapsto> VFun 3,
      VStr (ascii ''floordiv'') \<mapsto> VFun 4, VStr (ascii ''mod'') \<mapsto> VFun 5,
      VStr (ascii ''pow'') \<mapsto> VFun 6]"

text \<open>
  \<open>unpack\<close>. \<open>loads\<close> stands for \<open>z_from_dict(json.loads(canon))\<close>: a JSON document can
  hold values that the value model above does not have, so reading it is left to the
  parameter. \<open>struct.unpack(">I", raw[4:8])\<close> raises \<open>struct.error\<close> unless it gets four
  bytes. The last element of \<open>assigns+[final]\<close> must be a string for \<open>join\<close>. Printing is
  not a filesystem effect and is left out; the optional evaluation comes after the write
  and can still raise.
\<close>

definition unpack ::
  "(byte list \<Rightarrow> error + byte list) \<Rightarrow> (byte list \<Rightarrow> error + ZNode) \<Rightarrow> (str \<Rightarrow> error + byte list)
     \<Rightarrow> (nat \<Rightarrow> val \<Rightarrow> error + val) \<Rightarrow> filesystem \<Rightarrow> path \<Rightarrow> path option \<Rightarrow> bool
     \<Rightarrow> (error + unit) \<times> filesystem" where
  "unpack decompress loads encode app fs in_path out eval_now =
     (case read_bytes fs in_path of Inl e \<Rightarrow> (Inl e, fs) | Inr raw \<Rightarrow>
      if take 4 raw \<noteq> MAGIC then (Inl (ValueError (ascii ''bad magic'')), fs)
      else if length (take 4 (drop 4 raw)) \<noteq> 4 then (Inl StructError, fs)
      else case decompress (drop 8 raw) of Inl e \<Rightarrow> (Inl e, fs) | Inr canon \<Rightarrow>
          (case loads canon of Inl e \<Rightarrow> (Inl e, fs) | Inr z \<Rightarrow>
          (case z_to_py z of Inl e \<Rightarrow> (Inl e, fs) | Inr (assigns, final) \<Rightarrow>
          (case final of
             VStr final_text \<Rightarrow>
               (let text = ascii ''# expanded by CSL'' @ [10] @ join [10] (assigns @ [final_text]) @ [10]
                in case (case out of Some p \<Rightarrow> Inr p | None \<Rightarrow> with_suffix in_path (ascii ''.py'')) of
                     Inl e \<Rightarrow> (Inl e, fs)
                   | Inr out_path \<Rightarrow>
                       (case encode text of
                          Inl e \<Rightarrow> (Inl e, fs)
                        | Inr data \<Rightarrow>
                            (let fs' = fs(out_path \<mapsto> data) in
                             if eval_now
                             then (case fst (eval app z unpack_env) of
                                     Inl e \<Rightarrow> (Inl e, fs')
                                   | Inr v \<Rightarrow> (Inr (), fs'))
                             else (Inr (), fs'))))
           | _ \<Rightarrow> (Inl TypeError, fs)))))"















end
